theory Spec2Isabelle
  imports Main
begin

section \<open>Batch download and frame extraction: \<^verbatim>\<open>download_vimeo_frames.py\<close>\<close>

text \<open>
  The script reads a table of videos, and for each row downloads the video with an
  external program, saves five frames of it, deletes the download and counts the
  outcome in a shared dictionary \<^verbatim>\<open>stats\<close>. The embedding keeps the source's functions
  and names. What the external world does (the downloader, the video decoder, the file
  system calls that can fail) is a parameter of the model, so that every theorem holds
  for every behaviour of the world.

  An exception is a value: a function that can raise returns \<open>exn + 'a\<close>, with \<open>Inl\<close> the
  exception. The file system is the list of the paths that exist. A function with an
  effect on the file system returns the new file system beside its result; the effects
  made before an exception are kept.
\<close>

subsection \<open>Exceptions, cells and paths\<close>

datatype exn =
  TimeoutExpired | OSError | ValueError | AttributeError | CvError | SleepError
  | OverflowError | ZeroDivisionError

type_synonym filesystem = "string list"

text \<open>A cell of the parsed table: a missing value, a string, or a number.\<close>

datatype cell = NaN | Str string | Num int

definition digit_char :: "nat \<Rightarrow> char" where
  "digit_char d = char_of (48 + d)"

fun str_nat :: "nat \<Rightarrow> string" where
  "str_nat n = (if n < 10 then [digit_char n] else str_nat (n div 10) @ [digit_char (n mod 10)])"

definition str_int :: "int \<Rightarrow> string" where
  "str_int n = (if n < 0 then CHR ''-'' # str_nat (nat (- n)) else str_nat (nat n))"

text \<open>\<^verbatim>\<open>str(x)\<close>, as the f-strings apply it to a video number.\<close>

fun py_str :: "cell \<Rightarrow> string" where
  "py_str NaN = ''nan''"
| "py_str (Str s) = s"
| "py_str (Num n) = str_int n"

text \<open>\<^verbatim>\<open>os.path.join\<close> of two components on POSIX: an absolute second component replaces
  the first.\<close>

definition path_join :: "string \<Rightarrow> string \<Rightarrow> string" where
  "path_join a b =
     (if b \<noteq> [] \<and> hd b = CHR ''/'' then b
      else if a = [] \<or> last a = CHR ''/'' then a @ b
      else a @ ''/'' @ b)"

definition path_exists :: "filesystem \<Rightarrow> string \<Rightarrow> bool" where
  "path_exists fs p = (p \<in> set fs)"

text \<open>Characters for which \<^verbatim>\<open>str.isspace\<close> holds, among the code points below 256.\<close>

definition is_space :: "char \<Rightarrow> bool" where
  "is_space c =
     (let n = (of_char c :: nat)
      in (9 \<le> n \<and> n \<le> 13) \<or> (28 \<le> n \<and> n \<le> 32) \<or> n = 133 \<or> n = 160)"

definition strip :: "string \<Rightarrow> string" where
  "strip s = rev (dropWhile is_space (rev (dropWhile is_space s)))"

subsection \<open>Global variables\<close>

definition DOWNLOAD_DIR :: string where
  "DOWNLOAD_DIR = ''temp_downloads''"

definition OUTPUT_DIR :: string where
  "OUTPUT_DIR = ''final-dataset''"

definition MAX_WORKERS :: nat where
  "MAX_WORKERS = 4"

subsection \<open>The world of one item\<close>

text \<open>What \<^verbatim>\<open>subprocess.run\<close> does: the program ends with a return code, the timeout
  expires, or the call raises something else.\<close>

datatype proc_outcome = Exited int | TimedOut | RunFailed

text \<open>What \<^verbatim>\<open>cv2.imwrite\<close> does for one frame: it writes the file, it returns without
  writing, or it raises.\<close>

datatype write_outcome = Wrote | NotWritten | WriteRaises

record item_env =
  sleep_raises :: bool
  ytdlp_outcome :: proc_outcome
  ytdlp_leaves_file :: bool
  is_opened :: bool
  frame_count :: int
  makedirs_raises :: bool
  random_indices :: "int list"
  readable :: "int \<Rightarrow> bool"
  imwrite :: "nat \<Rightarrow> write_outcome"
  remove_raises :: bool

text \<open>The world gives the behaviour met by the item of a video number and a link.\<close>

type_synonym world = "cell \<Rightarrow> string \<Rightarrow> item_env"

record stats =
  total :: int
  successful :: int
  partial :: int
  failed :: int

record state =
  fs :: filesystem
  counters :: stats

definition incr_successful :: "state \<Rightarrow> state" where
  "incr_successful s = s\<lparr>counters := (counters s)\<lparr>successful := successful (counters s) + 1\<rparr>\<rparr>"

definition incr_partial :: "state \<Rightarrow> state" where
  "incr_partial s = s\<lparr>counters := (counters s)\<lparr>partial := partial (counters s) + 1\<rparr>\<rparr>"

definition incr_failed :: "state \<Rightarrow> state" where
  "incr_failed s = s\<lparr>counters := (counters s)\<lparr>failed := failed (counters s) + 1\<rparr>\<rparr>"

subsection \<open>\<^verbatim>\<open>ensure_dir_exists\<close>\<close>

text \<open>\<^verbatim>\<open>os.makedirs\<close> raises when the directory cannot be made; the function has no
  handler, so the exception leaves it.\<close>

definition ensure_dir_exists :: "bool \<Rightarrow> string \<Rightarrow> filesystem \<Rightarrow> (exn + unit) \<times> filesystem" where
  "ensure_dir_exists raises directory f =
     (if \<not> path_exists f directory then
        (if raises then (Inl OSError, f) else (Inr (), f @ [directory]))
      else (Inr (), f))"

subsection \<open>\<^verbatim>\<open>download_video\<close>\<close>

definition subprocess_run :: "item_env \<Rightarrow> string \<Rightarrow> filesystem \<Rightarrow> (exn + int) \<times> filesystem" where
  "subprocess_run env output_path f =
     (let f' = (if ytdlp_leaves_file env \<and> \<not> path_exists f output_path
                then f @ [output_path] else f)
      in case ytdlp_outcome env of
           Exited returncode \<Rightarrow> (Inr returncode, f')
         | TimedOut \<Rightarrow> (Inl TimeoutExpired, f')
         | RunFailed \<Rightarrow> (Inl OSError, f'))"

definition temp_path :: "cell \<Rightarrow> string" where
  "temp_path video_number = path_join DOWNLOAD_DIR (py_str video_number @ ''_temp.mp4'')"

definition download_video ::
  "item_env \<Rightarrow> string \<Rightarrow> cell \<Rightarrow> filesystem \<Rightarrow> (exn + string option) \<times> filesystem" where
  "download_video env url video_number f =
     (let output_path = temp_path video_number
      in case subprocess_run env output_path f of
           (Inr returncode, f') \<Rightarrow>
             (if returncode = 0 \<and> path_exists f' output_path
              then (Inr (Some output_path), f')
              else (Inr None, f'))
         | (Inl TimeoutExpired, f') \<Rightarrow> (Inr None, f')
         | (Inl e, f') \<Rightarrow> (Inr None, f'))"

subsection \<open>\<^verbatim>\<open>capture_random_frames\<close>\<close>

text \<open>
  The positions when the video has fewer frames than requested:
  \<^verbatim>\<open>[int(i * frame_count / num_frames) for i in range(num_frames)]\<close>.
  The product is an integer; \<^verbatim>\<open>/\<close> divides two integers into a float, the double
  nearest to the quotient with ties to the even mantissa, and raises when that double
  would not be finite or the divisor is zero; \<^verbatim>\<open>int\<close> truncates the float.

  \<open>bit_length\<close> is \<^verbatim>\<open>int.bit_length\<close>. \<open>float_quotient a b\<close>, for positive \<open>a\<close> and \<open>b\<close>, is
  the nearest double as a pair \<open>(m, s)\<close> that stands for \<open>m * 2 ^ s\<close>: \<open>e\<close> is the exponent
  of the quotient and \<open>m\<close> the quotient scaled to 53 bits and rounded. Quotients below
  the normal range are not treated apart, since their truncation is zero either way.
\<close>

function bit_length :: "int \<Rightarrow> nat" where
  "bit_length n = (if n \<le> 0 then 0 else Suc (bit_length (n div 2)))"
  by pat_completeness auto
termination
  by (relation "measure nat") auto

declare bit_length.simps [simp del]

definition round_half_even :: "int \<Rightarrow> int \<Rightarrow> int" where
  "round_half_even a b =
     (let q = a div b; r = a mod b
      in if 2 * r < b then q
         else if b < 2 * r then q + 1
         else if even q then q else q + 1)"

definition float_quotient :: "int \<Rightarrow> int \<Rightarrow> int \<times> int" where
  "float_quotient a b =
     (let d = int (bit_length a) - int (bit_length b);
          e = (if a * 2 ^ nat (- d) < b * 2 ^ nat d then d - 1 else d);
          s = e - 52
      in (round_half_even (a * 2 ^ nat (- s)) (b * 2 ^ nat s), s))"

text \<open>\<^verbatim>\<open>int(a / b)\<close> for integers \<open>a\<close> and \<open>b\<close>.\<close>

definition py_int_truediv :: "int \<Rightarrow> int \<Rightarrow> exn + int" where
  "py_int_truediv a b =
     (if b = 0 then Inl ZeroDivisionError
      else if a = 0 then Inr 0
      else (case float_quotient \<bar>a\<bar> \<bar>b\<bar> of
              (m, s) \<Rightarrow>
                if 0 \<le> s \<and> 2 ^ 1024 \<le> m * 2 ^ nat s then Inl OverflowError
                else Inr (sgn a * sgn b *
                          (if 0 \<le> s then m * 2 ^ nat s else m div 2 ^ nat (- s)))))"

text \<open>A list comprehension whose elements can raise: the first exception ends it.\<close>

fun collect_results :: "(exn + 'a) list \<Rightarrow> exn + 'a list" where
  "collect_results [] = Inr []"
| "collect_results (x # xs) =
     (case x of
        Inl e \<Rightarrow> Inl e
      | Inr v \<Rightarrow> (case collect_results xs of Inl e \<Rightarrow> Inl e | Inr vs \<Rightarrow> Inr (v # vs)))"

definition evenly_spaced :: "int \<Rightarrow> int \<Rightarrow> exn + int list" where
  "evenly_spaced count num_frames =
     collect_results (map (\<lambda>i. py_int_truediv (int i * count) num_frames) [0..<nat num_frames])"

text \<open>\<^verbatim>\<open>random.sample(range(frame_count), num_frames)\<close>: taking the length of the range
  raises \<^verbatim>\<open>OverflowError\<close> from \<open>2 ^ 63\<close> elements on, then a sample size that is negative
  or larger than the population raises \<^verbatim>\<open>ValueError\<close>; otherwise the world chooses.\<close>

definition random_sample :: "item_env \<Rightarrow> int \<Rightarrow> int \<Rightarrow> exn + int list" where
  "random_sample env population k =
     (if 2 ^ 63 \<le> population then Inl OverflowError
      else if k < 0 \<or> population < k then Inl ValueError
      else Inr (random_indices env))"

definition frame_indices :: "item_env \<Rightarrow> int \<Rightarrow> int \<Rightarrow> exn + int list" where
  "frame_indices env count num_frames =
     (if count < num_frames then evenly_spaced count num_frames
      else (case random_sample env count num_frames of
              Inl e \<Rightarrow> Inl e
            | Inr chosen \<Rightarrow> Inr (sort chosen)))"

definition frame_path :: "string \<Rightarrow> cell \<Rightarrow> nat \<Rightarrow> string" where
  "frame_path frame_dir video_number i =
     path_join frame_dir (py_str video_number @ ''_'' @ str_nat i @ ''.jpg'')"

text \<open>The loop over \<^verbatim>\<open>enumerate(frame_indices, 1)\<close>; \<open>i\<close> is the running number of
  the frame.\<close>

fun save_frames ::
  "item_env \<Rightarrow> string \<Rightarrow> cell \<Rightarrow> nat \<Rightarrow> int list \<Rightarrow> filesystem \<Rightarrow> (exn + unit) \<times> filesystem" where
  "save_frames env frame_dir video_number i [] f = (Inr (), f)"
| "save_frames env frame_dir video_number i (frame_idx # rest) f =
     (if readable env frame_idx then
        (case imwrite env i of
           Wrote \<Rightarrow>
             (let output_path = frame_path frame_dir video_number i
              in save_frames env frame_dir video_number (Suc i) rest
                   (if path_exists f output_path then f else f @ [output_path]))
         | NotWritten \<Rightarrow> save_frames env frame_dir video_number (Suc i) rest f
         | WriteRaises \<Rightarrow> (Inl CvError, f))
      else save_frames env frame_dir video_number (Suc i) rest f)"

text \<open>The body of the \<^verbatim>\<open>try\<close> block, then the function with its handler, which turns
  every exception into the result \<^verbatim>\<open>False\<close>.\<close>

definition capture_body ::
  "item_env \<Rightarrow> string \<Rightarrow> cell \<Rightarrow> int \<Rightarrow> filesystem \<Rightarrow> (exn + bool) \<times> filesystem" where
  "capture_body env video_path video_number num_frames f =
     (if \<not> is_opened env then (Inr False, f)
      else if frame_count env \<le> 0 then (Inr False, f)
      else
        (let frame_dir = path_join OUTPUT_DIR (py_str video_number)
         in case ensure_dir_exists (makedirs_raises env) frame_dir f of
              (Inl e, f1) \<Rightarrow> (Inl e, f1)
            | (Inr _, f1) \<Rightarrow>
                (case frame_indices env (frame_count env) num_frames of
                   Inl e \<Rightarrow> (Inl e, f1)
                 | Inr indices \<Rightarrow>
                     (case save_frames env frame_dir video_number 1 indices f1 of
                        (Inl e, f2) \<Rightarrow> (Inl e, f2)
                      | (Inr _, f2) \<Rightarrow> (Inr True, f2)))))"

definition capture_random_frames ::
  "item_env \<Rightarrow> string \<Rightarrow> cell \<Rightarrow> int \<Rightarrow> filesystem \<Rightarrow> (exn + bool) \<times> filesystem" where
  "capture_random_frames env video_path video_number num_frames f =
     (case capture_body env video_path video_number num_frames f of
        (Inl e, f') \<Rightarrow> (Inr False, f')
      | (Inr b, f') \<Rightarrow> (Inr b, f'))"

subsection \<open>\<^verbatim>\<open>secure_delete_file\<close>\<close>

definition os_remove :: "bool \<Rightarrow> string \<Rightarrow> filesystem \<Rightarrow> (exn + unit) \<times> filesystem" where
  "os_remove raises file_path f =
     (if raises \<or> \<not> path_exists f file_path then (Inl OSError, f)
      else (Inr (), removeAll file_path f))"

definition secure_delete_file ::
  "bool \<Rightarrow> string \<Rightarrow> filesystem \<Rightarrow> (exn + bool) \<times> filesystem" where
  "secure_delete_file raises file_path f =
     (if path_exists f file_path then
        (case os_remove raises file_path f of
           (Inl e, f') \<Rightarrow> (Inr False, f')
         | (Inr _, f') \<Rightarrow> (Inr True, f'))
      else (Inr False, f))"

subsection \<open>\<^verbatim>\<open>process_video\<close>\<close>

text \<open>The rate limit: a random delay slept under the lock.\<close>

definition rate_limit :: "item_env \<Rightarrow> exn + unit" where
  "rate_limit env = (if sleep_raises env then Inl SleepError else Inr ())"

text \<open>\<^verbatim>\<open>not video_path\<close> holds for \<^verbatim>\<open>None\<close> and for the empty string. The body of
  the \<^verbatim>\<open>try\<close> block comes first, then the function with its handler.\<close>

definition process_video_body :: "world \<Rightarrow> cell \<Rightarrow> string \<Rightarrow> state \<Rightarrow> (exn + bool) \<times> state" where
  "process_video_body w video_number url s =
     (let env = w video_number url
      in case rate_limit env of
           Inl e \<Rightarrow> (Inl e, s)
         | Inr _ \<Rightarrow>
             (case download_video env url video_number (fs s) of
                (Inl e, f1) \<Rightarrow> (Inl e, s\<lparr>fs := f1\<rparr>)
              | (Inr None, f1) \<Rightarrow> (Inr False, incr_failed (s\<lparr>fs := f1\<rparr>))
              | (Inr (Some video_path), f1) \<Rightarrow>
                  (if video_path = [] then (Inr False, incr_failed (s\<lparr>fs := f1\<rparr>))
                   else
                     (case capture_random_frames env video_path video_number 5 f1 of
                        (Inl e, f2) \<Rightarrow> (Inl e, s\<lparr>fs := f2\<rparr>)
                      | (Inr frames_success, f2) \<Rightarrow>
                          (case secure_delete_file (remove_raises env) video_path f2 of
                             (Inl e, f3) \<Rightarrow> (Inl e, s\<lparr>fs := f3\<rparr>)
                           | (Inr _, f3) \<Rightarrow>
                               (Inr frames_success,
                                (if frames_success then incr_successful (s\<lparr>fs := f3\<rparr>)
                                 else incr_partial (s\<lparr>fs := f3\<rparr>))))))))"

definition process_video :: "world \<Rightarrow> cell \<Rightarrow> string \<Rightarrow> state \<Rightarrow> (exn + bool) \<times> state" where
  "process_video w video_number url s =
     (case process_video_body w video_number url s of
        (Inl e, s') \<Rightarrow> (Inr False, incr_failed s')
      | (Inr b, s') \<Rightarrow> (Inr b, s'))"


subsection \<open>\<^verbatim>\<open>batch_process_videos\<close>\<close>

text \<open>The parsed table: the column names and, for each row, its cells in the order of
  the columns. A row that is shorter than the header has missing values at its end.\<close>

record dataframe =
  columns :: "string list"
  rows :: "cell list list"

fun index_of :: "'a \<Rightarrow> 'a list \<Rightarrow> nat option" where
  "index_of x [] = None"
| "index_of x (y # ys) =
     (if x = y then Some 0 else (case index_of x ys of None \<Rightarrow> None | Some i \<Rightarrow> Some (Suc i)))"

text \<open>\<^verbatim>\<open>row[name]\<close>: a name that is no column raises \<^verbatim>\<open>KeyError\<close> (here \<open>ValueError\<close>
  stands for it).\<close>

definition row_get :: "string list \<Rightarrow> cell list \<Rightarrow> string \<Rightarrow> exn + cell" where
  "row_get cols r name =
     (case index_of name cols of
        None \<Rightarrow> Inl ValueError
      | Some i \<Rightarrow> Inr (if i < length r then r ! i else NaN))"

text \<open>\<^verbatim>\<open>df.head(n)\<close>: the first \<open>n\<close> rows, or all but the last \<open>- n\<close> rows when \<open>n\<close> is
  negative.\<close>

definition df_head :: "int \<Rightarrow> 'a list \<Rightarrow> 'a list" where
  "df_head n xs = (if 0 \<le> n then take (nat n) xs else take (nat (int (length xs) + n)) xs)"

text \<open>\<^verbatim>\<open>if limit:\<close> holds for a limit that is neither \<^verbatim>\<open>None\<close> nor zero.\<close>

fun truthy :: "int option \<Rightarrow> bool" where
  "truthy None = False"
| "truthy (Some n) = (n \<noteq> 0)"

definition apply_limit :: "int option \<Rightarrow> dataframe \<Rightarrow> dataframe" where
  "apply_limit limit df =
     (if truthy limit then (case limit of Some n \<Rightarrow> df\<lparr>rows := df_head n (rows df)\<rparr> | None \<Rightarrow> df)
      else df)"

text \<open>
  The comprehension that submits the tasks:
  \<^verbatim>\<open>for _, row in df.iterrows() if not pd.isna(row["vimeo_link"]) and row["vimeo_link"].strip() != ""\<close>.
  A link that is neither missing nor a string has no \<^verbatim>\<open>strip\<close>: the comprehension raises
  there, with the earlier rows already submitted. The result is the list of the
  submitted items, in order, and the exception that stopped the comprehension, if any.
\<close>

fun submit_all :: "string list \<Rightarrow> cell list list \<Rightarrow> (cell \<times> string) list \<times> exn option" where
  "submit_all cols [] = ([], None)"
| "submit_all cols (r # rest) =
     (case row_get cols r ''vimeo_link'' of
        Inl e \<Rightarrow> ([], Some e)
      | Inr NaN \<Rightarrow> submit_all cols rest
      | Inr (Num n) \<Rightarrow> ([], Some AttributeError)
      | Inr (Str link) \<Rightarrow>
          (if strip link \<noteq> [] then
             (case row_get cols r ''video_number'' of
                Inl e \<Rightarrow> ([], Some e)
              | Inr video_number \<Rightarrow>
                  (case submit_all cols rest of
                     (items, err) \<Rightarrow> ((video_number, link) # items, err)))
           else submit_all cols rest))"

text \<open>
  The pool runs \<^verbatim>\<open>process_video\<close> on every submitted item. Each item changes the
  counters under the lock and works on the paths of its own video number, so the run is
  modelled by the schedule that takes the items one after the other. The list holds the
  result of each future.
\<close>

fun run_pool :: "world \<Rightarrow> (cell \<times> string) list \<Rightarrow> state \<Rightarrow> (exn + bool) list \<times> state" where
  "run_pool w [] s = ([], s)"
| "run_pool w ((video_number, url) # rest) s =
     (case process_video w video_number url s of
        (r, s1) \<Rightarrow> (case run_pool w rest s1 of (rs, s2) \<Rightarrow> (r # rs, s2)))"

definition listdir :: "filesystem \<Rightarrow> string \<Rightarrow> string list" where
  "listdir f d = filter (\<lambda>p. length d + 1 < length p \<and> take (length d + 1) p = d @ ''/'') f"

text \<open>The removal of the temporary directory at the end, inside its own
  \<^verbatim>\<open>try\<close>: an error of \<^verbatim>\<open>os.rmdir\<close> is logged and dropped.\<close>

definition remove_temp_dir :: "bool \<Rightarrow> filesystem \<Rightarrow> filesystem" where
  "remove_temp_dir raises f =
     (if path_exists f DOWNLOAD_DIR \<and> listdir f DOWNLOAD_DIR = [] then
        (if raises then f else removeAll DOWNLOAD_DIR f)
      else f)"

text \<open>What the run meets outside the items: the result of \<^verbatim>\<open>pd.read_csv\<close>, and
  whether making the two directories and removing the temporary one fail.\<close>

record run_env =
  read_csv :: "exn + dataframe"
  setup_raises :: bool
  rmdir_raises :: bool

text \<open>What a run leaves: the file system, the \<^verbatim>\<open>stats\<close> dictionary if it was created,
  the submitted items and the results of their futures, the counters printed in the
  summary if the summary was printed, and the exception that left the function, if any.\<close>

record run =
  run_fs :: filesystem
  run_stats :: "stats option"
  dispatched :: "(cell \<times> string) list"
  results :: "(exn + bool) list"
  summary :: "stats option"
  raised :: "exn option"

definition stopped :: "filesystem \<Rightarrow> exn option \<Rightarrow> run" where
  "stopped f e =
     \<lparr>run_fs = f, run_stats = None, dispatched = [], results = [], summary = None, raised = e\<rparr>"

definition batch_process_videos ::
  "world \<Rightarrow> run_env \<Rightarrow> string \<Rightarrow> int option \<Rightarrow> filesystem \<Rightarrow> run" where
  "batch_process_videos w renv csv_file limit f0 =
     (case ensure_dir_exists (setup_raises renv) DOWNLOAD_DIR f0 of
        (Inl e, f1) \<Rightarrow> stopped f1 (Some e)
      | (Inr _, f1) \<Rightarrow>
     (case ensure_dir_exists (setup_raises renv) OUTPUT_DIR f1 of
        (Inl e, f2) \<Rightarrow> stopped f2 (Some e)
      | (Inr _, f2) \<Rightarrow>
     (case read_csv renv of
        Inl e \<Rightarrow> stopped f2 None
      | Inr df0 \<Rightarrow>
          (if ''video_number'' \<notin> set (columns df0) \<or> ''vimeo_link'' \<notin> set (columns df0)
           then stopped f2 None
           else
             (let df = apply_limit limit df0;
                  stats0 = \<lparr>total = int (length (rows df)), successful = 0, partial = 0, failed = 0\<rparr>
              in case submit_all (columns df) (rows df) of
                   (items, err) \<Rightarrow>
                     (case run_pool w items \<lparr>fs = f2, counters = stats0\<rparr> of
                        (rs, s) \<Rightarrow>
                          (case err of
                             Some e \<Rightarrow>
                               \<lparr>run_fs = fs s, run_stats = Some (counters s), dispatched = items,
                                results = rs, summary = None, raised = Some e\<rparr>
                           | None \<Rightarrow>
                               \<lparr>run_fs = remove_temp_dir (rmdir_raises renv) (fs s),
                                run_stats = Some (counters s), dispatched = items,
                                results = rs, summary = Some (counters s), raised = None\<rparr>)))))))"


subsection \<open>Observations and test data\<close>

text \<open>The number of the frame files \<^verbatim>\<open>{video_number}_1.jpg\<close> to
  \<^verbatim>\<open>{video_number}_n.jpg\<close> that exist in the directory of a video.\<close>

definition frames_written :: "filesystem \<Rightarrow> cell \<Rightarrow> nat \<Rightarrow> nat" where
  "frames_written f video_number n =
     length (filter (\<lambda>i. path_exists f (frame_path (path_join OUTPUT_DIR (py_str video_number)) video_number i))
               [1..<Suc n])"

text \<open>The positions of the spacing formula with the exact integer quotient.\<close>

definition floor_positions :: "int \<Rightarrow> int \<Rightarrow> int list" where
  "floor_positions count num_frames =
     map (\<lambda>i. (int i * count) div num_frames) [0..<nat num_frames]"

text \<open>The download of an item succeeds whatever the file system holds: the delay does
  not raise, the program ends with return code 0 and its file is there.\<close>

definition fetches :: "item_env \<Rightarrow> bool" where
  "fetches env = (\<not> sleep_raises env \<and> ytdlp_outcome env = Exited 0 \<and> ytdlp_leaves_file env)"

text \<open>A row is submitted when its link is a string that is not blank.\<close>

definition has_link :: "string list \<Rightarrow> cell list \<Rightarrow> bool" where
  "has_link cols r =
     (case row_get cols r ''vimeo_link'' of
        Inr (Str link) \<Rightarrow> strip link \<noteq> []
      | _ \<Rightarrow> False)"

text \<open>Behaviours of single items: a video of 100 frames that downloads and decodes
  without any failure; a download that fails and leaves nothing; a video of which only
  the frames up to position 20 can be read; a video with no frames; a download that
  fails after the file was written; an item whose delay raises; a video for which
  writing the third frame raises.\<close>

definition env_full :: item_env where
  "env_full =
     \<lparr>sleep_raises = False, ytdlp_outcome = Exited 0, ytdlp_leaves_file = True,
      is_opened = True, frame_count = 100, makedirs_raises = False,
      random_indices = [50, 10, 40, 20, 30], readable = (\<lambda>_. True), imwrite = (\<lambda>_. Wrote),
      remove_raises = False\<rparr>"

definition env_nofetch :: item_env where
  "env_nofetch = env_full\<lparr>ytdlp_outcome := Exited 1, ytdlp_leaves_file := False\<rparr>"

definition env_two :: item_env where
  "env_two = env_full\<lparr>readable := (\<lambda>idx. idx \<le> 20)\<rparr>"

definition env_noframes :: item_env where
  "env_noframes = env_full\<lparr>frame_count := 0\<rparr>"

definition env_leftover :: item_env where
  "env_leftover = env_full\<lparr>ytdlp_outcome := Exited 1\<rparr>"

definition env_sleep :: item_env where
  "env_sleep = env_full\<lparr>sleep_raises := True\<rparr>"

definition env_writefail :: item_env where
  "env_writefail = env_full\<lparr>imwrite := (\<lambda>i. if i = 3 then WriteRaises else Wrote)\<rparr>"

definition scenario_world :: world where
  "scenario_world video_number url =
     (if url = ''A'' then env_full
      else if url = ''B'' then env_nofetch
      else if url = ''E'' then env_noframes
      else if url = ''L'' then env_leftover
      else if url = ''S'' then env_sleep
      else if url = ''W'' then env_writefail
      else env_two)"

definition scenario_df :: dataframe where
  "scenario_df =
     \<lparr>columns = [''video_number'', ''vimeo_link''],
      rows = [[Num 1, Str ''A''], [Num 2, Str ''B''], [Num 3, Str ''C'']]\<rparr>"

definition writefail_df :: dataframe where
  "writefail_df =
     \<lparr>columns = [''video_number'', ''vimeo_link''],
      rows = [[Num 1, Str ''A''], [Num 2, Str ''B''], [Num 3, Str ''W'']]\<rparr>"

definition blank_df :: dataframe where
  "blank_df =
     \<lparr>columns = [''video_number'', ''vimeo_link''],
      rows = [[Num 1, Str ''A''], [Num 2, Str ''  ''], [Num 3, NaN]]\<rparr>"

definition sleepy_df :: dataframe where
  "sleepy_df =
     \<lparr>columns = [''video_number'', ''vimeo_link''],
      rows = [[Num 1, Str ''S''], [Num 2, Str ''A'']]\<rparr>"

definition nolink_df :: dataframe where
  "nolink_df =
     \<lparr>columns = [''video_number'', ''url''],
      rows = [[Num 1, Str ''A'']]\<rparr>"

definition run_env_of :: "dataframe \<Rightarrow> run_env" where
  "run_env_of df = \<lparr>read_csv = Inr df, setup_raises = False, rmdir_raises = False\<rparr>"


definition state0 :: state where
  "state0 = \<lparr>fs = [], counters = \<lparr>total = 0, successful = 0, partial = 0, failed = 0\<rparr>\<rparr>"

text \<open>Runs from an empty file system: the three rows A, B, C; the same with a third
  item for which writing the third frame raises; a table with two rows that have no
  link; a table without the column of the links.\<close>

abbreviation scenario_run :: run where
  "scenario_run \<equiv>
     batch_process_videos scenario_world (run_env_of scenario_df) ''final-list.csv'' None []"

abbreviation writefail_run :: run where
  "writefail_run \<equiv>
     batch_process_videos scenario_world (run_env_of writefail_df) ''final-list.csv'' None []"

abbreviation blank_run :: run where
  "blank_run \<equiv>
     batch_process_videos scenario_world (run_env_of blank_df) ''final-list.csv'' None []"

abbreviation nolink_run :: run where
  "nolink_run \<equiv>
     batch_process_videos scenario_world (run_env_of nolink_df) ''final-list.csv'' None []"

section \<open>Properties\<close>

subsection \<open>The functions always return\<close>

lemma download_video_returns: "\<exists>r. fst (download_video env url video_number f) = Inr r"
  by (auto simp: download_video_def Let_def split: prod.splits sum.splits exn.splits)

lemma download_video_path:
  "fst (download_video env url video_number f) = Inr (Some p) \<Longrightarrow> p = temp_path video_number"
  by (auto simp: download_video_def Let_def split: prod.splits sum.splits exn.splits if_splits)

lemma temp_path_nonempty: "temp_path video_number \<noteq> []"
  by (simp add: temp_path_def path_join_def DOWNLOAD_DIR_def)

lemma capture_random_frames_returns:
  "\<exists>b. fst (capture_random_frames env video_path video_number n f) = Inr b"
  by (auto simp: capture_random_frames_def split: prod.splits sum.splits)

lemma secure_delete_file_returns:
  "\<exists>b. fst (secure_delete_file raises file_path f) = Inr b"
  by (auto simp: secure_delete_file_def split: prod.splits sum.splits)

lemma process_video_body_cases:
  "(\<exists>e s'. process_video_body w vn url s = (Inl e, s') \<and> counters s' = counters s)
   \<or> (\<exists>s'. process_video_body w vn url s = (Inr False, s') \<and>
        (counters s' = (counters s)\<lparr>failed := failed (counters s) + 1\<rparr>
         \<or> counters s' = (counters s)\<lparr>partial := partial (counters s) + 1\<rparr>))
   \<or> (\<exists>s'. process_video_body w vn url s = (Inr True, s') \<and>
        counters s' = (counters s)\<lparr>successful := successful (counters s) + 1\<rparr>)"
  by (auto simp: process_video_body_def Let_def incr_failed_def incr_partial_def incr_successful_def
      split: prod.splits sum.splits option.splits)

lemma process_video_counters:
  "counters (snd (process_video w vn url s)) = (counters s)\<lparr>successful := successful (counters s) + 1\<rparr>
   \<or> counters (snd (process_video w vn url s)) = (counters s)\<lparr>partial := partial (counters s) + 1\<rparr>
   \<or> counters (snd (process_video w vn url s)) = (counters s)\<lparr>failed := failed (counters s) + 1\<rparr>"
  using process_video_body_cases [of w vn url s]
  by (auto simp: process_video_def incr_failed_def)

lemma process_video_returns: "\<exists>b. fst (process_video w vn url s) = Inr b"
  by (auto simp: process_video_def split: prod.splits sum.splits)

subsection \<open>The counters of a pool\<close>

lemma run_pool_counts:
  "run_pool w items s = (rs, s') \<Longrightarrow>
     successful (counters s') + partial (counters s') + failed (counters s')
       = successful (counters s) + partial (counters s) + failed (counters s) + int (length items)
     \<and> total (counters s') = total (counters s)
     \<and> length rs = length items
     \<and> (\<forall>r \<in> set rs. \<exists>b. r = Inr b)"
proof (induction items arbitrary: s rs s')
  case Nil
  then show ?case by simp
next
  case (Cons item rest)
  obtain vn url where item: "item = (vn, url)" by (cases item)
  obtain r s1 where pv: "process_video w vn url s = (r, s1)" by (cases "process_video w vn url s")
  obtain rs1 s2 where rp: "run_pool w rest s1 = (rs1, s2)" by (cases "run_pool w rest s1")
  from Cons.prems item pv rp have eqs: "rs = r # rs1" "s' = s2" by auto
  have ih: "successful (counters s2) + partial (counters s2) + failed (counters s2)
       = successful (counters s1) + partial (counters s1) + failed (counters s1) + int (length rest)
     \<and> total (counters s2) = total (counters s1)
     \<and> length rs1 = length rest
     \<and> (\<forall>r \<in> set rs1. \<exists>b. r = Inr b)"
    using Cons.IH [OF rp] .
  have one: "successful (counters s1) + partial (counters s1) + failed (counters s1)
       = successful (counters s) + partial (counters s) + failed (counters s) + 1
       \<and> total (counters s1) = total (counters s)"
    using process_video_counters [of w vn url s] pv by auto
  have r: "\<exists>b. r = Inr b"
    using process_video_returns [of w vn url s] pv by simp
  show ?case using ih one r eqs by auto
qed

lemma batch_stats_sum:
  "run_stats (batch_process_videos w renv csv_file limit f0) = Some st \<Longrightarrow>
     successful st + partial st + failed st
       = int (length (dispatched (batch_process_videos w renv csv_file limit f0)))"
  by (auto simp: batch_process_videos_def stopped_def Let_def
      split: prod.splits sum.splits option.splits if_splits dest!: run_pool_counts)

subsection \<open>Saving the frames\<close>

lemma save_frames_no_raise:
  "\<forall>i. imwrite env i \<noteq> WriteRaises \<Longrightarrow> \<exists>f'. save_frames env d vn i idxs f = (Inr (), f')"
proof (induction idxs arbitrary: i f)
  case Nil
  then show ?case by simp
next
  case (Cons idx rest)
  then show ?case by (cases "imwrite env i") (auto simp: Let_def)
qed


subsection \<open>The float quotient\<close>

lemma int_div_less:
  fixes a n c :: int
  assumes "0 < n" and "a < c * n"
  shows "a div n < c"
proof -
  have "n * (a div n) \<le> a"
    using assms(1) by (simp add: pos_mod_sign minus_mod_eq_mult_div [symmetric])
  then have "n * (a div n) < n * c" using assms(2) by (simp add: mult.commute)
  then show ?thesis using assms(1) by (simp add: mult_less_cancel_left_pos)
qed

lemma bit_length_pos: "0 < n \<Longrightarrow> 0 < bit_length n"
  by (subst bit_length.simps) simp

lemma bit_length_upper: "0 \<le> n \<Longrightarrow> n < 2 ^ bit_length n"
proof (induction n rule: bit_length.induct)
  case (1 n)
  show ?case
  proof (cases "n \<le> 0")
    case True
    with 1 show ?thesis by (subst bit_length.simps) simp
  next
    case False
    then have "n div 2 < 2 ^ bit_length (n div 2)"
      using 1 by simp
    then have "n < 2 * 2 ^ bit_length (n div 2)" by linarith
    with False show ?thesis by (subst bit_length.simps) simp
  qed
qed

lemma bit_length_le: "n < 2 ^ k \<Longrightarrow> bit_length n \<le> k"
proof (induction n arbitrary: k rule: bit_length.induct)
  case (1 n)
  show ?case
  proof (cases "n \<le> 0")
    case True
    then show ?thesis by (subst bit_length.simps) simp
  next
    case False
    then obtain j where k: "k = Suc j"
      using 1(2) by (cases k) auto
    have "n div 2 < 2 ^ j" using 1(2) k by simp
    then have "bit_length (n div 2) \<le> j" using 1(1) False by simp
    with False k show ?thesis by (subst bit_length.simps) simp
  qed
qed

text \<open>Rounding a quotient scaled by \<open>2 ^ k\<close> and dropping the \<open>k\<close> low bits again gives the
  integer quotient, as long as the divisor has at most \<open>k + 1\<close> bits.\<close>

lemma round_half_even_exact:
  fixes a b :: int
  assumes "0 \<le> a" "0 < b" "b < 2 * 2 ^ k"
  shows "round_half_even (a * 2 ^ k) b div 2 ^ k = a div b"
proof -
  define P :: int where "P = 2 ^ k"
  define q where "q = a div b"
  define r where "r = a mod b"
  define Q where "Q = (a * P) div b"
  define R where "R = (a * P) mod b"
  have P: "0 < P" "1 \<le> P" by (simp_all add: P_def)
  have a: "a = q * b + r" "0 \<le> r" "r < b"
    using assms(2) by (simp_all add: q_def r_def)
  have A: "a * P = Q * b + R" "0 \<le> R" "R < b"
    using assms(2) by (simp_all add: Q_def R_def)
  have low: "q * P \<le> Q"
  proof -
    have "q * P * b \<le> a * P"
    proof -
      have "q * b \<le> a" using a by simp
      then have "q * b * P \<le> a * P" using P by (simp add: mult_right_mono)
      then show ?thesis by (simp add: mult.commute mult.left_commute)
    qed
    then have "(q * P * b) div b \<le> (a * P) div b"
      using assms(2) by (rule zdiv_mono1)
    moreover have "(q * P * b) div b = q * P"
      using assms(2) by simp
    ultimately show ?thesis by (simp add: Q_def)
  qed
  have up: "Q < (q + 1) * P"
  proof -
    have "a < (q + 1) * b" using a by (simp add: algebra_simps)
    then have "a * P < (q + 1) * b * P" using P by simp
    then have "a * P < ((q + 1) * P) * b" by (simp add: mult.commute mult.left_commute)
    then show ?thesis unfolding Q_def using assms(2) by (rule int_div_less [rotated])
  qed
  have up1: "Q + 1 < (q + 1) * P" if "b \<le> 2 * R"
  proof (rule ccontr)
    assume "\<not> Q + 1 < (q + 1) * P"
    with up have Qeq: "Q = (q + 1) * P - 1" by simp
    have "R = a * P - Q * b" using A by simp
    also have "\<dots> = (q * b + r) * P - ((q + 1) * P - 1) * b" using a(1) Qeq by simp
    also have "\<dots> = b - P * (b - r)" by (simp add: algebra_simps)
    finally have R: "R = b - P * (b - r)" .
    have "1 \<le> b - r" using a by simp
    then have "P * 1 \<le> P * (b - r)" using P by (intro mult_left_mono) simp_all
    then have "R \<le> b - P" using R by simp
    with that assms(3) show False by (simp add: P_def)
  qed
  have cases: "round_half_even (a * P) b = Q \<or> (round_half_even (a * P) b = Q + 1 \<and> b \<le> 2 * R)"
    by (auto simp: round_half_even_def Let_def Q_def R_def)
  have "q * P \<le> round_half_even (a * P) b \<and> round_half_even (a * P) b < (q + 1) * P"
    using cases low up up1 by auto
  then have "round_half_even (a * P) b div P = q"
    using P by (intro int_div_pos_eq [where r = "round_half_even (a * P) b - q * P"])
      (simp_all add: algebra_simps)
  then show ?thesis by (simp add: P_def q_def)
qed

text \<open>Below \<open>2 ^ 53\<close> the float quotient truncates to the integer quotient.\<close>

lemma py_int_truediv_exact:
  assumes "0 \<le> a" "0 < b" "a < 2 ^ 53"
  shows "py_int_truediv a b = Inr (a div b)"
proof (cases "a = 0")
  case True
  with assms(2) show ?thesis by (simp add: py_int_truediv_def)
next
  case False
  with assms(1) have apos: "0 < a" by simp
  define d where "d = int (bit_length a) - int (bit_length b)"
  define e where "e = (if a * 2 ^ nat (- d) < b * 2 ^ nat d then d - 1 else d)"
  define s where "s = e - 52"
  define k where "k = nat (- s)"
  define m where "m = round_half_even (a * 2 ^ k) b"
  have la: "bit_length a \<le> 53" using assms(3) by (rule bit_length_le)
  have lb: "0 < bit_length b" using assms(2) by (rule bit_length_pos)
  have ed: "e \<le> d" by (simp add: e_def)
  have s: "s \<le> 0" using la lb ed by (simp add: s_def d_def)
  then have ns: "nat s = 0" by simp
  have "float_quotient a b = (round_half_even (a * 2 ^ nat (- s)) (b * 2 ^ nat s), s)"
    unfolding float_quotient_def Let_def s_def e_def d_def ..
  then have fq: "float_quotient a b = (m, s)"
    by (simp add: ns m_def k_def)
  have "int (bit_length b) \<le> int k + 1"
    using la ed by (simp add: k_def s_def d_def)
  then have "bit_length b \<le> Suc k" by simp
  then have "(2::int) ^ bit_length b \<le> 2 ^ Suc k"
    by (intro power_increasing) simp_all
  moreover have "b < 2 ^ bit_length b"
    using assms(2) by (intro bit_length_upper) simp
  ultimately have b: "b < 2 * 2 ^ k" by simp
  have exact: "m div 2 ^ k = a div b"
    unfolding m_def using assms(1,2) b by (rule round_half_even_exact)
  have small: "a div b < 2 ^ 1024"
  proof -
    have "a div b \<le> a div 1" using assms(1,2) by (intro zdiv_mono2) simp_all
    then have "a div b \<le> a" by simp
    also have "\<dots> < 2 ^ 53" by (rule assms(3))
    also have "(2::int) ^ 53 \<le> 2 ^ 1024" by (intro power_increasing) simp_all
    finally show ?thesis .
  qed
  show ?thesis
  proof (cases "s = 0")
    case True
    then have "k = 0" by (simp add: k_def)
    with exact have "m = a div b" by simp
    with True small fq apos assms(2) False show ?thesis
      by (simp add: py_int_truediv_def)
  next
    case nz: False
    with s have "s < 0" by simp
    with exact fq apos assms(2) False show ?thesis
      by (simp add: py_int_truediv_def k_def)
  qed
qed

lemma collect_results_map:
  "(\<And>x. x \<in> set xs \<Longrightarrow> f x = Inr (g x)) \<Longrightarrow> collect_results (map f xs) = Inr (map g xs)"
  by (induction xs) simp_all

lemma collect_results_Inr:
  "collect_results xs = Inr vs \<Longrightarrow>
     length vs = length xs \<and> (\<forall>k < length xs. xs ! k = Inr (vs ! k))"
proof (induction xs arbitrary: vs)
  case Nil
  then show ?case by simp
next
  case (Cons x xs)
  from Cons.prems obtain v vs' where x: "x = Inr v" and r: "collect_results xs = Inr vs'"
    and vs: "vs = v # vs'"
    by (auto split: sum.splits)
  from Cons.IH [OF r] x vs show ?case
    by (auto simp: nth_Cons')
qed

lemma evenly_spaced_exact:
  assumes "0 \<le> count" and "0 < n" and "(n - 1) * count < 2 ^ 53"
  shows "evenly_spaced count n = Inr (floor_positions count n)"
  unfolding evenly_spaced_def floor_positions_def
proof (rule collect_results_map)
  fix i
  assume "i \<in> set [0..<nat n]"
  then have "int i \<le> n - 1" by auto
  then have "int i * count \<le> (n - 1) * count"
    using assms(1) by (rule mult_right_mono)
  then have small: "int i * count < 2 ^ 53" using assms(3) by simp
  have "0 \<le> int i * count" using assms(1) by simp
  then show "py_int_truediv (int i * count) n = Inr (int i * count div n)"
    using assms(2) small by (rule py_int_truediv_exact)
qed

text \<open>The float quotient is finite when the exact quotient is below \<open>2 ^ 512\<close>.\<close>

lemma round_half_even_le:
  fixes a b :: int
  shows "round_half_even a b \<le> a div b + 1"
  by (simp add: round_half_even_def Let_def)

lemma py_int_truediv_returns:
  assumes "0 \<le> a" "0 < b" "a < c * b" "c < 2 ^ 512"
  shows "\<exists>v. py_int_truediv a b = Inr v"
proof (cases "a = 0")
  case True
  with assms(2) show ?thesis by (simp add: py_int_truediv_def)
next
  case False
  with assms(1) have apos: "0 < a" by simp
  have cpos: "0 < c"
  proof (rule ccontr)
    assume "\<not> 0 < c"
    then have "c * b \<le> 0" using assms(2) by (simp add: mult_le_0_iff)
    with apos assms(3) show False by simp
  qed
  define d where "d = int (bit_length a) - int (bit_length b)"
  define e where "e = (if a * 2 ^ nat (- d) < b * 2 ^ nat d then d - 1 else d)"
  define s where "s = e - 52"
  define m where "m = round_half_even (a * 2 ^ nat (- s)) (b * 2 ^ nat s)"
  have fq: "float_quotient a b = (m, s)"
    unfolding float_quotient_def Let_def m_def s_def e_def d_def ..
  have small: "m * 2 ^ nat s < 2 ^ 1024" if s: "0 \<le> s"
  proof -
    define B where "B = b * 2 ^ nat s"
    have B: "0 < B" "b \<le> B"
      using assms(2) by (simp_all add: B_def mult_le_cancel_left1)
    have m: "m = round_half_even a B"
      using s by (simp add: m_def B_def)
    have "a div B \<le> a div b"
      using assms(1,2) B(2) by (intro zdiv_mono2)
    moreover have "a div b < c"
      using assms(2,3) by (rule int_div_less)
    ultimately have mc: "m \<le> c"
      using round_half_even_le [of a B] m by simp
    have "b < 2 ^ bit_length b"
      using assms(2) by (intro bit_length_upper) simp
    then have "c * b < 2 ^ 512 * 2 ^ bit_length b"
      using assms(2,4) cpos by (intro mult_strict_mono) simp_all
    then have "a < 2 ^ (512 + bit_length b)"
      using assms(3) by (simp add: power_add)
    then have "bit_length a \<le> 512 + bit_length b"
      by (rule bit_length_le)
    then have "d \<le> 512" by (simp add: d_def)
    moreover have "e \<le> d" by (simp add: e_def)
    ultimately have "nat s \<le> 512" by (simp add: s_def)
    then have p: "(2::int) ^ nat s \<le> 2 ^ 512"
      by (intro power_increasing) simp_all
    have "m * 2 ^ nat s \<le> c * 2 ^ 512"
    proof (cases "0 \<le> m")
      case True
      show ?thesis using mc p True cpos by (intro mult_mono) simp_all
    next
      case neg: False
      then have "m * 2 ^ nat s \<le> 0" by (simp add: mult_le_0_iff)
      moreover have "0 \<le> c * (2::int) ^ 512"
        using cpos by simp
      ultimately show ?thesis by simp
    qed
    also have "\<dots> < 2 ^ 512 * 2 ^ 512"
      using assms(4) by simp
    also have "\<dots> = (2::int) ^ 1024" by (simp add: power_add [symmetric])
    finally show ?thesis .
  qed
  show ?thesis
    using fq apos assms(2) False small
    by (auto simp: py_int_truediv_def)
qed

lemma collect_results_returns:
  "(\<And>x. x \<in> set xs \<Longrightarrow> \<exists>v. f x = Inr v) \<Longrightarrow> \<exists>vs. collect_results (map f xs) = Inr vs"
proof (induction xs)
  case Nil
  then show ?case by simp
next
  case (Cons x xs)
  then obtain v where "f x = Inr v" by auto
  moreover obtain vs where "collect_results (map f xs) = Inr vs"
    using Cons by auto
  ultimately show ?case by simp
qed

lemma evenly_spaced_returns:
  assumes "0 < count" and "count < n" and "count < 2 ^ 512"
  shows "\<exists>xs. evenly_spaced count n = Inr xs"
  unfolding evenly_spaced_def
proof (rule collect_results_returns)
  fix i
  assume "i \<in> set [0..<nat n]"
  then have "int i < n" by auto
  then have "int i * count < n * count"
    using assms(1) by simp
  then have "int i * count < count * n" by (simp add: mult.commute)
  moreover have "0 \<le> int i * count" using assms(1) by simp
  moreover have "0 < n" using assms by simp
  ultimately show "\<exists>v. py_int_truediv (int i * count) n = Inr v"
    using assms(3) by (intro py_int_truediv_returns [where c = count])
qed

subsection \<open>Positions with the integer quotient\<close>

lemma floor_positions_nth:
  "k < nat n \<Longrightarrow> floor_positions count n ! k = (int k * count) div n"
  by (simp add: floor_positions_def)

lemma floor_positions_range:
  assumes "0 < count" "count < n" "x \<in> set (floor_positions count n)"
  shows "0 \<le> x \<and> x < count"
proof -
  from assms(3) obtain k where k: "k < nat n" "x = (int k * count) div n"
    by (auto simp: floor_positions_def)
  have n: "0 < n" using assms by simp
  have "0 \<le> int k * count" using assms(1) by simp
  then have lo: "0 \<le> x" using k n by (simp add: pos_imp_zdiv_nonneg_iff)
  have "int k < n" using k(1) by simp
  then have "int k * count < n * count" using assms(1) by simp
  then have "int k * count < count * n" by (simp add: mult.commute)
  then have "x < count" using k(2) n int_div_less [of n "int k * count" count] by simp
  with lo show ?thesis by simp
qed

lemma floor_positions_sorted:
  assumes "0 < count" "0 < n"
  shows "sorted (floor_positions count n)"
proof -
  have "\<forall>i j. i \<le> j \<longrightarrow> j < length (floor_positions count n) \<longrightarrow>
          floor_positions count n ! i \<le> floor_positions count n ! j"
  proof (intro allI impI)
    fix i j :: nat
    assume ij: "i \<le> j" and j: "j < length (floor_positions count n)"
    then have jn: "j < nat n" and "i < nat n" by (simp_all add: floor_positions_def)
    have "int i * count \<le> int j * count" using ij assms(1) by (simp add: mult_right_mono)
    then have "(int i * count) div n \<le> (int j * count) div n"
      using assms(2) by (simp add: zdiv_mono1)
    then show "floor_positions count n ! i \<le> floor_positions count n ! j"
      using jn \<open>i < nat n\<close> by (simp add: floor_positions_nth)
  qed
  then show ?thesis by (simp add: sorted_iff_nth_mono)
qed

lemma floor_positions_repeats:
  assumes "0 < count" "count < n"
  shows "\<not> distinct (floor_positions count n)"
proof
  assume d: "distinct (floor_positions count n)"
  have sub: "set (floor_positions count n) \<subseteq> {0..<count}"
    using floor_positions_range [OF assms] by auto
  have "card (set (floor_positions count n)) \<le> card {0..<count}"
    using sub by (intro card_mono) simp_all
  moreover have "card (set (floor_positions count n)) = length (floor_positions count n)"
    using d by (rule distinct_card)
  moreover have "length (floor_positions count n) = nat n"
    by (simp add: floor_positions_def)
  ultimately show False using assms by simp
qed


subsection \<open>Items whose download succeeds\<close>

lemma frame_indices_five:
  assumes "0 < count" and "count < 2 ^ 63"
  shows "\<exists>xs. frame_indices env count 5 = Inr xs"
proof (cases "count < 5")
  case True
  then have "(5 - 1) * count < (2::int) ^ 53" by simp
  then have "evenly_spaced count 5 = Inr (floor_positions count 5)"
    using assms(1) by (intro evenly_spaced_exact) simp_all
  with True show ?thesis by (simp add: frame_indices_def)
next
  case False
  with assms(2) show ?thesis by (simp add: frame_indices_def random_sample_def)
qed

lemma capture_True_sufficient:
  assumes "is_opened env" "0 < frame_count env" "\<not> makedirs_raises env"
    and "\<forall>i. imwrite env i \<noteq> WriteRaises" and "frame_count env < 2 ^ 63"
  shows "fst (capture_random_frames env p vn 5 f) = Inr True"
proof -
  have "\<exists>f1. ensure_dir_exists (makedirs_raises env) (path_join OUTPUT_DIR (py_str vn)) f = (Inr (), f1)"
    using assms(3) by (simp add: ensure_dir_exists_def)
  then obtain f1 where d: "ensure_dir_exists (makedirs_raises env) (path_join OUTPUT_DIR (py_str vn)) f = (Inr (), f1)"
    by blast
  obtain xs where x: "frame_indices env (frame_count env) 5 = Inr xs"
    using frame_indices_five [OF assms(2) assms(5)] by blast
  obtain f2 where s: "save_frames env (path_join OUTPUT_DIR (py_str vn)) vn 1 xs f1 = (Inr (), f2)"
    using save_frames_no_raise [OF assms(4)] by blast
  show ?thesis
    using assms(1,2) d x s by (simp add: capture_random_frames_def capture_body_def Let_def)
qed


lemma process_video_fetched:
  assumes "\<not> sleep_raises (w vn url)"
    and "download_video (w vn url) url vn (fs s) = (Inr (Some p), f1)"
  shows "counters (snd (process_video w vn url s)) =
          (if fst (capture_random_frames (w vn url) p vn 5 f1) = Inr True
           then (counters s)\<lparr>successful := successful (counters s) + 1\<rparr>
           else (counters s)\<lparr>partial := partial (counters s) + 1\<rparr>)"
proof -
  have p: "p \<noteq> []"
    using download_video_path [of "w vn url" url vn "fs s" p] assms(2) temp_path_nonempty by auto
  obtain b f2 where c: "capture_random_frames (w vn url) p vn 5 f1 = (Inr b, f2)"
    using capture_random_frames_returns [of "w vn url" p vn 5 f1]
    by (cases "capture_random_frames (w vn url) p vn 5 f1") auto
  obtain d f3 where r: "secure_delete_file (remove_raises (w vn url)) p f2 = (Inr d, f3)"
    using secure_delete_file_returns [of "remove_raises (w vn url)" p f2]
    by (cases "secure_delete_file (remove_raises (w vn url)) p f2") auto
  show ?thesis
    using assms p c r
    by (simp add: process_video_def process_video_body_def rate_limit_def Let_def
        incr_successful_def incr_partial_def)
qed


lemma save_frames_remove_raises:
  "save_frames (env\<lparr>remove_raises := x\<rparr>) d vn i idxs f = save_frames env d vn i idxs f"
  by (induction idxs arbitrary: i f) (simp_all add: Let_def split: write_outcome.splits)

lemma frame_indices_remove_raises:
  "frame_indices (env\<lparr>remove_raises := x\<rparr>) c n = frame_indices env c n"
  by (simp add: frame_indices_def random_sample_def)

lemma capture_remove_raises:
  "capture_random_frames (env\<lparr>remove_raises := x\<rparr>) p vn n f = capture_random_frames env p vn n f"
  by (simp add: capture_random_frames_def capture_body_def frame_indices_remove_raises
      save_frames_remove_raises Let_def cong: prod.case_cong sum.case_cong)

lemma download_remove_raises:
  "download_video (env\<lparr>remove_raises := x\<rparr>) url vn f = download_video env url vn f"
  by (simp add: download_video_def subprocess_run_def)

lemma process_video_remove_raises:
  "fst (process_video (\<lambda>a b. (w a b)\<lparr>remove_raises := x\<rparr>) vn url s) = fst (process_video w vn url s)
   \<and> counters (snd (process_video (\<lambda>a b. (w a b)\<lparr>remove_raises := x\<rparr>) vn url s))
       = counters (snd (process_video w vn url s))"
proof (cases "sleep_raises (w vn url)")
  case True
  then show ?thesis
    by (simp add: process_video_def process_video_body_def rate_limit_def)
next
  case False
  obtain r f1 where d: "download_video (w vn url) url vn (fs s) = (Inr r, f1)"
    using download_video_returns [of "w vn url" url vn "fs s"]
    by (cases "download_video (w vn url) url vn (fs s)") auto
  show ?thesis
  proof (cases "r = None \<or> r = Some []")
    case True
    with False d show ?thesis
      by (auto simp: process_video_def process_video_body_def rate_limit_def download_remove_raises)
  next
    case nonempty: False
    then obtain p where p: "r = Some p" "p \<noteq> []" by (cases r) auto
    obtain b f2 where c: "capture_random_frames (w vn url) p vn 5 f1 = (Inr b, f2)"
      using capture_random_frames_returns [of "w vn url" p vn 5 f1]
      by (cases "capture_random_frames (w vn url) p vn 5 f1") auto
    obtain d1 f3 where r1: "secure_delete_file (remove_raises (w vn url)) p f2 = (Inr d1, f3)"
      using secure_delete_file_returns [of "remove_raises (w vn url)" p f2]
      by (cases "secure_delete_file (remove_raises (w vn url)) p f2") auto
    obtain d2 f4 where r2: "secure_delete_file x p f2 = (Inr d2, f4)"
      using secure_delete_file_returns [of x p f2]
      by (cases "secure_delete_file x p f2") auto
    show ?thesis
      using False d p c r1 r2
      by (simp add: process_video_def process_video_body_def rate_limit_def
          download_remove_raises capture_remove_raises incr_successful_def incr_partial_def)
  qed
qed

lemma download_fetches:
  "fetches env \<Longrightarrow> \<exists>f1. download_video env url vn f = (Inr (Some (temp_path vn)), f1)"
  by (auto simp: fetches_def download_video_def subprocess_run_def Let_def path_exists_def)

lemma process_video_fetches:
  assumes "fetches (w vn url)"
    and "\<forall>p f. fst (capture_random_frames (w vn url) p vn 5 f) = Inr t"
  shows "counters (snd (process_video w vn url s)) =
          (if t then (counters s)\<lparr>successful := successful (counters s) + 1\<rparr>
           else (counters s)\<lparr>partial := partial (counters s) + 1\<rparr>)"
proof -
  obtain f1 where d: "download_video (w vn url) url vn (fs s) = (Inr (Some (temp_path vn)), f1)"
    using download_fetches [OF assms(1)] by blast
  have "\<not> sleep_raises (w vn url)" using assms(1) by (simp add: fetches_def)
  then show ?thesis
    using process_video_fetched [of w vn url s "temp_path vn" f1] d assms(2) by simp
qed

lemma process_video_nofetch:
  assumes "\<not> sleep_raises (w vn url)" and "ytdlp_outcome (w vn url) \<noteq> Exited 0"
  shows "fst (process_video w vn url s) = Inr False
       \<and> counters (snd (process_video w vn url s))
           = (counters s)\<lparr>failed := failed (counters s) + 1\<rparr>"
proof -
  have "\<exists>f1. download_video (w vn url) url vn (fs s) = (Inr None, f1)"
    using assms(2)
    by (cases "ytdlp_outcome (w vn url)")
      (simp_all add: download_video_def subprocess_run_def Let_def)
  then obtain f1 where "download_video (w vn url) url vn (fs s) = (Inr None, f1)"
    by blast
  with assms(1) show ?thesis
    by (simp add: process_video_def process_video_body_def rate_limit_def incr_failed_def)
qed

lemma run_pool_snd:
  "snd (run_pool w ((vn, url) # rest) s) = snd (run_pool w rest (snd (process_video w vn url s)))"
  by (simp split: prod.splits)

text \<open>A table of three rows with links: the counters after the run, from the result of
  each item.\<close>

lemma three_rows_stats:
  assumes csv: "read_csv renv = Inr \<lparr>columns = [''video_number'', ''vimeo_link''],
                   rows = [[a, Str la], [b, Str lb], [c, Str lc]]\<rparr>"
    and dirs: "\<not> setup_raises renv"
    and links: "strip la \<noteq> []" "strip lb \<noteq> []" "strip lc \<noteq> []"
    and A: "fetches (w a la)" "\<forall>p f. fst (capture_random_frames (w a la) p a 5 f) = Inr True"
    and B: "\<not> sleep_raises (w b lb)" "ytdlp_outcome (w b lb) \<noteq> Exited 0"
    and C: "fetches (w c lc)" "\<forall>p f. fst (capture_random_frames (w c lc) p c 5 f) = Inr t"
  shows "run_stats (batch_process_videos w renv csv_file None f0) =
           Some \<lparr>total = 3, successful = (if t then 2 else 1),
                 partial = (if t then 0 else 1), failed = 1\<rparr>"
proof -
  define df where "df = \<lparr>columns = [''video_number'', ''vimeo_link''],
                   rows = [[a, Str la], [b, Str lb], [c, Str lc]]\<rparr>"
  have "\<exists>f1. ensure_dir_exists (setup_raises renv) DOWNLOAD_DIR f0 = (Inr (), f1)"
    using dirs by (simp add: ensure_dir_exists_def)
  then obtain f1 where d1: "ensure_dir_exists (setup_raises renv) DOWNLOAD_DIR f0 = (Inr (), f1)"
    by blast
  have "\<exists>f2. ensure_dir_exists (setup_raises renv) OUTPUT_DIR f1 = (Inr (), f2)"
    using dirs by (simp add: ensure_dir_exists_def)
  then obtain f2 where d2: "ensure_dir_exists (setup_raises renv) OUTPUT_DIR f1 = (Inr (), f2)"
    by blast
  define s0 where "s0 = \<lparr>fs = f2,
      counters = \<lparr>total = 3, successful = 0, partial = 0, failed = 0\<rparr>\<rparr>"
  define s1 where "s1 = snd (process_video w a la s0)"
  define s2 where "s2 = snd (process_video w b lb s1)"
  define s3 where "s3 = snd (process_video w c lc s2)"
  have sub: "submit_all (columns df) (rows df) = ([(a, la), (b, lb), (c, lc)], None)"
    using links by (simp add: df_def row_get_def)
  have lim: "apply_limit None df = df"
    by (simp add: apply_limit_def)
  have c1: "counters s1 = \<lparr>total = 3, successful = 1, partial = 0, failed = 0\<rparr>"
    unfolding s1_def
    using process_video_fetches [where w = w and vn = a and url = la and s = s0 and t = True] A
    by (simp add: s0_def)
  have c2: "counters s2 = \<lparr>total = 3, successful = 1, partial = 0, failed = 1\<rparr>"
    unfolding s2_def
    using process_video_nofetch [where w = w and vn = b and url = lb and s = s1] B c1
    by simp
  have c3: "counters s3 = \<lparr>total = 3, successful = (if t then 2 else 1),
                 partial = (if t then 0 else 1), failed = 1\<rparr>"
    unfolding s3_def
    using process_video_fetches [where w = w and vn = c and url = lc and s = s2 and t = t] C c2
    by simp
  have "snd (run_pool w [(a, la), (b, lb), (c, lc)] s0) = s3"
    by (simp only: run_pool_snd s1_def s2_def s3_def run_pool.simps(1) snd_conv)
  then obtain rs where pool: "run_pool w [(a, la), (b, lb), (c, lc)] s0 = (rs, s3)"
    by (cases "run_pool w [(a, la), (b, lb), (c, lc)] s0") simp
  have cols: "\<not> (''video_number'' \<notin> set (columns df) \<or> ''vimeo_link'' \<notin> set (columns df))"
    by (simp add: df_def)
  have len: "int (length (rows df)) = 3"
    by (simp add: df_def)
  have "run_stats (batch_process_videos w renv csv_file None f0) = Some (counters s3)"
    using d1 d2 csv [folded df_def] cols lim sub len pool [unfolded s0_def]
    by (simp add: batch_process_videos_def Let_def)
  with c3 show ?thesis by simp
qed

text \<open>The scenario of C1 read as the claim states it: three rows, A with five of five
  frames written, B with a failed download, C with two of five frames written. The run
  counts two successful items and no partial one, not one of each.\<close>

theorem written_count_scenario_counterexample:
  "frames_written (run_fs scenario_run) (Num 1) 5 = 5
   \<and> frames_written (run_fs scenario_run) (Num 3) 5 = 2
   \<and> run_stats scenario_run = Some \<lparr>total = 3, successful = 2, partial = 0, failed = 1\<rparr>
   \<and> run_stats scenario_run \<noteq> Some \<lparr>total = 3, successful = 1, partial = 1, failed = 1\<rparr>"
  by code_simp


text \<open>C1, amended. For an item whose download succeeds, the counter that is incremented
  follows the result of \<^verbatim>\<open>capture_random_frames\<close> and not the number of frames written:
  \<^verbatim>\<open>successful\<close> when the call returns \<^verbatim>\<open>True\<close>, \<^verbatim>\<open>partial\<close> when it returns
  \<^verbatim>\<open>False\<close>, and never \<^verbatim>\<open>failed\<close>. The call returns \<^verbatim>\<open>True\<close> whenever the video
  opens with a positive frame count below \<open>2 ^ 63\<close> and no call raises, whichever frames
  can be read, so an item with two of five frames, or none, is counted successful. For a
  table of three rows where the first item downloads and its sampling returns \<^verbatim>\<open>True\<close>,
  the download of the second fails and the third downloads, the run ends with one failed
  item, and with two successful items when the sampling of the third returns \<^verbatim>\<open>True\<close>,
  with one successful and one partial item when it returns \<^verbatim>\<open>False\<close>, whatever the
  numbers of frames written.\<close>

theorem outcome_follows_capture_result:
  "(\<not> sleep_raises (w vn url) \<and> download_video (w vn url) url vn (fs s) = (Inr (Some p), f1) \<longrightarrow>
      counters (snd (process_video w vn url s)) =
        (if fst (capture_random_frames (w vn url) p vn 5 f1) = Inr True
         then (counters s)\<lparr>successful := successful (counters s) + 1\<rparr>
         else (counters s)\<lparr>partial := partial (counters s) + 1\<rparr>))
   \<and> (is_opened env \<and> 0 < frame_count env \<and> frame_count env < 2 ^ 63 \<and> \<not> makedirs_raises env
        \<and> (\<forall>i. imwrite env i \<noteq> WriteRaises) \<longrightarrow>
      (\<forall>p' vn' f. fst (capture_random_frames env p' vn' 5 f) = Inr True))
   \<and> (read_csv renv = Inr \<lparr>columns = [''video_number'', ''vimeo_link''],
                            rows = [[a, Str la], [b, Str lb], [c, Str lc]]\<rparr>
        \<and> \<not> setup_raises renv
        \<and> strip la \<noteq> [] \<and> strip lb \<noteq> [] \<and> strip lc \<noteq> []
        \<and> fetches (w a la) \<and> (\<forall>p' f. fst (capture_random_frames (w a la) p' a 5 f) = Inr True)
        \<and> \<not> sleep_raises (w b lb) \<and> ytdlp_outcome (w b lb) \<noteq> Exited 0
        \<and> fetches (w c lc) \<and> (\<forall>p' f. fst (capture_random_frames (w c lc) p' c 5 f) = Inr t) \<longrightarrow>
      run_stats (batch_process_videos w renv csv_file None f0) =
        Some \<lparr>total = 3, successful = (if t then 2 else 1),
              partial = (if t then 0 else 1), failed = 1\<rparr>)"
proof (intro conjI impI)
  assume "\<not> sleep_raises (w vn url) \<and> download_video (w vn url) url vn (fs s) = (Inr (Some p), f1)"
  then show "counters (snd (process_video w vn url s)) =
        (if fst (capture_random_frames (w vn url) p vn 5 f1) = Inr True
         then (counters s)\<lparr>successful := successful (counters s) + 1\<rparr>
         else (counters s)\<lparr>partial := partial (counters s) + 1\<rparr>)"
    using process_video_fetched [of w vn url s p f1] by simp
next
  assume "is_opened env \<and> 0 < frame_count env \<and> frame_count env < 2 ^ 63 \<and> \<not> makedirs_raises env
        \<and> (\<forall>i. imwrite env i \<noteq> WriteRaises)"
  then show "\<forall>p' vn' f. fst (capture_random_frames env p' vn' 5 f) = Inr True"
    using capture_True_sufficient [of env] by blast
next
  assume h: "read_csv renv = Inr \<lparr>columns = [''video_number'', ''vimeo_link''],
                            rows = [[a, Str la], [b, Str lb], [c, Str lc]]\<rparr>
        \<and> \<not> setup_raises renv
        \<and> strip la \<noteq> [] \<and> strip lb \<noteq> [] \<and> strip lc \<noteq> []
        \<and> fetches (w a la) \<and> (\<forall>p' f. fst (capture_random_frames (w a la) p' a 5 f) = Inr True)
        \<and> \<not> sleep_raises (w b lb) \<and> ytdlp_outcome (w b lb) \<noteq> Exited 0
        \<and> fetches (w c lc) \<and> (\<forall>p' f. fst (capture_random_frames (w c lc) p' c 5 f) = Inr t)"
  show "run_stats (batch_process_videos w renv csv_file None f0) =
        Some \<lparr>total = 3, successful = (if t then 2 else 1),
              partial = (if t then 0 else 1), failed = 1\<rparr>"
    by (rule three_rows_stats) (use h in blast)+
qed

text \<open>The theorem at the scenario: item C has two of five frames written and is counted
  successful, and the run ends with two successful items and one failed. When writing the
  third frame of the third item raises instead, two frames are written as well and the
  run ends with one successful, one partial and one failed item.\<close>

theorem outcome_follows_capture_result_witness:
  "\<not> sleep_raises (scenario_world (Num 3) ''C'')
   \<and> download_video (scenario_world (Num 3) ''C'') ''C'' (Num 3) (fs state0)
       = (Inr (Some ''temp_downloads/3_temp.mp4''), [''temp_downloads/3_temp.mp4''])
   \<and> frames_written (fs (snd (process_video scenario_world (Num 3) ''C'' state0))) (Num 3) 5 = 2
   \<and> counters (snd (process_video scenario_world (Num 3) ''C'' state0))
       = \<lparr>total = 0, successful = 1, partial = 0, failed = 0\<rparr>
   \<and> frames_written (run_fs scenario_run) (Num 3) 5 = 2
   \<and> run_stats scenario_run = Some \<lparr>total = 3, successful = 2, partial = 0, failed = 1\<rparr>
   \<and> frames_written (run_fs writefail_run) (Num 3) 5 = 2
   \<and> run_stats writefail_run = Some \<lparr>total = 3, successful = 1, partial = 1, failed = 1\<rparr>"
proof -
  note t = outcome_follows_capture_result [where w = scenario_world and vn = "Num 3"
      and url = "''C''" and s = state0 and p = "''temp_downloads/3_temp.mp4''"
      and ?f1.0 = "[''temp_downloads/3_temp.mp4'']" and env = env_two
      and renv = "run_env_of scenario_df" and a = "Num 1" and la = "''A''"
      and b = "Num 2" and lb = "''B''" and c = "Num 3" and lc = "''C''" and t = True
      and csv_file = "''final-list.csv''" and ?f0.0 = "[]"]
  have h1: "\<not> sleep_raises (scenario_world (Num 3) ''C'')"
    by code_simp
  have h2: "download_video (scenario_world (Num 3) ''C'') ''C'' (Num 3) (fs state0)
       = (Inr (Some ''temp_downloads/3_temp.mp4''), [''temp_downloads/3_temp.mp4''])"
    by code_simp
  have h3: "is_opened env_two \<and> 0 < frame_count env_two \<and> frame_count env_two < 2 ^ 63
      \<and> \<not> makedirs_raises env_two"
    by code_simp
  have h4: "\<forall>i. imwrite env_two i \<noteq> WriteRaises"
    by (simp add: env_two_def env_full_def)
  have two: "\<forall>p' vn' f. fst (capture_random_frames env_two p' vn' 5 f) = Inr True"
    using t h3 h4 by blast
  have w3: "scenario_world (Num 3) ''C'' = env_two"
    by (simp add: scenario_world_def)
  have item: "counters (snd (process_video scenario_world (Num 3) ''C'' state0))
      = \<lparr>total = 0, successful = 1, partial = 0, failed = 0\<rparr>"
    using t h1 h2 two w3 by (simp add: state0_def)
  have f: "frames_written (fs (snd (process_video scenario_world (Num 3) ''C'' state0))) (Num 3) 5 = 2"
    by code_simp
  have full: "\<forall>p' f. fst (capture_random_frames env_full p' (Num 1) 5 f) = Inr True"
    using capture_True_sufficient [of env_full] by (simp add: env_full_def)
  have s1: "read_csv (run_env_of scenario_df) = Inr \<lparr>columns = [''video_number'', ''vimeo_link''],
      rows = [[Num 1, Str ''A''], [Num 2, Str ''B''], [Num 3, Str ''C'']]\<rparr>"
    by (simp add: run_env_of_def scenario_df_def)
  have s2: "\<not> setup_raises (run_env_of scenario_df)"
    by (simp add: run_env_of_def)
  have s3: "strip ''A'' \<noteq> [] \<and> strip ''B'' \<noteq> [] \<and> strip ''C'' \<noteq> []"
    by code_simp
  have s4: "fetches (scenario_world (Num 1) ''A'') \<and> fetches (scenario_world (Num 3) ''C'')
      \<and> \<not> sleep_raises (scenario_world (Num 2) ''B'')
      \<and> ytdlp_outcome (scenario_world (Num 2) ''B'') \<noteq> Exited 0"
    by code_simp
  have w1: "scenario_world (Num 1) ''A'' = env_full"
    by (simp add: scenario_world_def)
  have run: "run_stats scenario_run = Some \<lparr>total = 3, successful = 2, partial = 0, failed = 1\<rparr>"
    using t s1 s2 s3 s4 full two w1 w3 by simp
  have fr: "frames_written (run_fs scenario_run) (Num 3) 5 = 2"
    by code_simp
  have wf: "frames_written (run_fs writefail_run) (Num 3) 5 = 2
      \<and> run_stats writefail_run = Some \<lparr>total = 3, successful = 1, partial = 1, failed = 1\<rparr>"
    by code_simp
  show ?thesis using h1 h2 f item fr run wf by blast
qed

text \<open>C2 as stated fails: an item that downloads and whose video reports zero frames
  is counted partial, and the counter of failed items stays at zero.\<close>

theorem no_frames_counted_partial_counterexample:
  "fst (download_video env_noframes ''E'' (Num 5) (fs state0)) = Inr (Some ''temp_downloads/5_temp.mp4'')
   \<and> is_opened env_noframes \<and> frame_count env_noframes \<le> 0
   \<and> fst (process_video scenario_world (Num 5) ''E'' state0) = Inr False
   \<and> counters (snd (process_video scenario_world (Num 5) ''E'' state0))
       = \<lparr>total = 0, successful = 0, partial = 1, failed = 0\<rparr>"
  by code_simp

text \<open>C2, amended. For an item whose download succeeds and whose opened video reports a
  frame count that is not positive, \<^verbatim>\<open>capture_random_frames\<close> returns \<^verbatim>\<open>False\<close> and
  leaves the file system as it was (no frame is written and the directory of the video
  is not created), and the item is counted \<^verbatim>\<open>partial\<close>.\<close>

theorem no_frames_is_partial:
  assumes "\<not> sleep_raises (w vn url)"
    and "download_video (w vn url) url vn (fs s) = (Inr (Some p), f1)"
    and "is_opened (w vn url)"
    and "frame_count (w vn url) \<le> 0"
  shows "capture_random_frames (w vn url) p vn 5 f1 = (Inr False, f1)
       \<and> fst (process_video w vn url s) = Inr False
       \<and> counters (snd (process_video w vn url s))
           = (counters s)\<lparr>partial := partial (counters s) + 1\<rparr>"
proof -
  have c: "capture_random_frames (w vn url) p vn 5 f1 = (Inr False, f1)"
    using assms(3,4) by (simp add: capture_random_frames_def capture_body_def)
  have p: "p \<noteq> []"
    using download_video_path [of "w vn url" url vn "fs s" p] assms(2) temp_path_nonempty by auto
  obtain d f3 where r: "secure_delete_file (remove_raises (w vn url)) p f1 = (Inr d, f3)"
    using secure_delete_file_returns [of "remove_raises (w vn url)" p f1]
    by (cases "secure_delete_file (remove_raises (w vn url)) p f1") auto
  have "fst (process_video w vn url s) = Inr False"
    using assms(1,2) p c r
    by (simp add: process_video_def process_video_body_def rate_limit_def Let_def)
  moreover have "counters (snd (process_video w vn url s))
           = (counters s)\<lparr>partial := partial (counters s) + 1\<rparr>"
    using process_video_fetched [of w vn url s p f1] assms(1,2) c by simp
  ultimately show ?thesis using c by simp
qed

text \<open>The theorem at an item whose video has no frames.\<close>

theorem no_frames_is_partial_witness:
  "\<not> sleep_raises (scenario_world (Num 5) ''E'')
   \<and> download_video (scenario_world (Num 5) ''E'') ''E'' (Num 5) (fs state0)
       = (Inr (Some ''temp_downloads/5_temp.mp4''), [''temp_downloads/5_temp.mp4''])
   \<and> is_opened (scenario_world (Num 5) ''E'')
   \<and> frame_count (scenario_world (Num 5) ''E'') \<le> 0
   \<and> capture_random_frames (scenario_world (Num 5) ''E'') ''temp_downloads/5_temp.mp4'' (Num 5) 5
        [''temp_downloads/5_temp.mp4''] = (Inr False, [''temp_downloads/5_temp.mp4''])
   \<and> counters (snd (process_video scenario_world (Num 5) ''E'' state0))
       = \<lparr>total = 0, successful = 0, partial = 1, failed = 0\<rparr>"
proof -
  have h1: "\<not> sleep_raises (scenario_world (Num 5) ''E'')"
    by code_simp
  have h2: "download_video (scenario_world (Num 5) ''E'') ''E'' (Num 5) (fs state0)
       = (Inr (Some ''temp_downloads/5_temp.mp4''), [''temp_downloads/5_temp.mp4''])"
    by code_simp
  have h3: "is_opened (scenario_world (Num 5) ''E'')"
    by code_simp
  have h4: "frame_count (scenario_world (Num 5) ''E'') \<le> 0"
    by code_simp
  note t = no_frames_is_partial [of scenario_world "Num 5" "''E''" state0 "''temp_downloads/5_temp.mp4''"
        "[''temp_downloads/5_temp.mp4'']"]
  have "counters (snd (process_video scenario_world (Num 5) ''E'' state0))
      = \<lparr>total = 0, successful = 0, partial = 1, failed = 0\<rparr>"
    using t h1 h2 h3 h4 by (simp add: state0_def)
  with h1 h2 h3 h4 t show ?thesis by blast
qed


subsection \<open>Submission, counters and exceptions\<close>

lemma submit_all_links:
  "submit_all cols rs = (items, err) \<Longrightarrow> \<forall>item \<in> set items. strip (snd item) \<noteq> []"
proof (induction rs arbitrary: items err)
  case Nil
  then show ?case by simp
next
  case (Cons r rest)
  then show ?case
    by (auto split: sum.splits cell.splits if_splits prod.splits)
qed

lemma submit_all_complete:
  "submit_all cols rs = (items, None) \<Longrightarrow> length items = length (filter (has_link cols) rs)"
proof (induction rs arbitrary: items)
  case Nil
  then show ?case by simp
next
  case (Cons r rest)
  show ?case
  proof (cases "row_get cols r ''vimeo_link''")
    case (Inl e)
    with Cons.prems show ?thesis by simp
  next
    case (Inr c)
    show ?thesis
    proof (cases c)
      case NaN
      with Inr Cons show ?thesis by (simp add: has_link_def)
    next
      case (Num n)
      with Inr Cons.prems show ?thesis by simp
    next
      case (Str link)
      show ?thesis
      proof (cases "strip link = []")
        case True
        with Str Inr Cons show ?thesis by (simp add: has_link_def)
      next
        case False
        show ?thesis
        proof (cases "row_get cols r ''video_number''")
          case (Inl e)
          with False Str Inr Cons.prems show ?thesis by simp
        next
          case vn: (Inr video_number)
          obtain items' err where rest: "submit_all cols rest = (items', err)"
            by (cases "submit_all cols rest")
          with vn False Str Inr Cons.prems have "items = (video_number, link) # items'" "err = None"
            by simp_all
          with rest Cons.IH [of items'] False Str Inr show ?thesis
            by (simp add: has_link_def)
        qed
      qed
    qed
  qed
qed

lemma columns_apply_limit: "columns (apply_limit limit df) = columns df"
  by (cases limit) (simp_all add: apply_limit_def)

text \<open>C3 as stated fails: of three rows, one with a blank link and one with a missing
  link, only one item is submitted, and \<^verbatim>\<open>total\<close> is three.\<close>

theorem blank_rows_in_total_counterexample:
  "length (rows blank_df) = 3
   \<and> dispatched blank_run = [(Num 1, ''A'')]
   \<and> run_stats blank_run = Some \<lparr>total = 3, successful = 1, partial = 0, failed = 0\<rparr>"
  by code_simp

text \<open>C3, amended. \<^verbatim>\<open>total\<close> is the number of rows of the table after the limit, the
  rows without a link included. Only rows whose link is not blank are submitted; the
  three counters of outcomes add up to the number of submitted items, so a row without a
  link is counted in none of them. When the submission ends without an exception, the
  submitted items are as many as the rows that have a link.\<close>

theorem total_counts_rows:
  assumes "read_csv renv = Inr df"
    and "run_stats (batch_process_videos w renv csv_file limit f0) = Some st"
  shows "total st = int (length (rows (apply_limit limit df)))
       \<and> successful st + partial st + failed st
           = int (length (dispatched (batch_process_videos w renv csv_file limit f0)))
       \<and> (\<forall>item \<in> set (dispatched (batch_process_videos w renv csv_file limit f0)).
            strip (snd item) \<noteq> [])
       \<and> (raised (batch_process_videos w renv csv_file limit f0) = None \<longrightarrow>
            length (dispatched (batch_process_videos w renv csv_file limit f0))
              = length (filter (has_link (columns df)) (rows (apply_limit limit df))))"
proof -
  let ?r = "batch_process_videos w renv csv_file limit f0"
  let ?df = "apply_limit limit df"
  let ?s0 = "\<lparr>fs = snd (ensure_dir_exists (setup_raises renv) OUTPUT_DIR
                 (snd (ensure_dir_exists (setup_raises renv) DOWNLOAD_DIR f0))),
             counters = \<lparr>total = int (length (rows ?df)), successful = 0, partial = 0, failed = 0\<rparr>\<rparr>"
  obtain items err where sub: "submit_all (columns ?df) (rows ?df) = (items, err)"
    by (cases "submit_all (columns ?df) (rows ?df)")
  obtain rs s where pool: "run_pool w items ?s0 = (rs, s)"
    by (cases "run_pool w items ?s0")
  have shape: "run_stats ?r = Some (counters s) \<and> dispatched ?r = items \<and> raised ?r = err"
    using assms sub pool
    by (auto simp: batch_process_videos_def stopped_def Let_def
        split: prod.splits sum.splits option.splits if_splits)
  have st: "st = counters s" using shape assms(2) by simp
  have tot: "total (counters s) = int (length (rows ?df))"
    using run_pool_counts [OF pool] by simp
  have sum: "successful st + partial st + failed st = int (length (dispatched ?r))"
    using batch_stats_sum [OF assms(2)] .
  have links: "\<forall>item \<in> set items. strip (snd item) \<noteq> []"
    using submit_all_links [OF sub] .
  have compl: "err = None \<longrightarrow> length items = length (filter (has_link (columns df)) (rows ?df))"
    using submit_all_complete [of "columns ?df" "rows ?df" items] sub
    by (auto simp: columns_apply_limit)
  show ?thesis using st tot sum links compl shape by simp
qed

text \<open>The theorem at the table with a blank and a missing link.\<close>

theorem total_counts_rows_witness:
  "read_csv (run_env_of blank_df) = Inr blank_df
   \<and> run_stats blank_run = Some \<lparr>total = 3, successful = 1, partial = 0, failed = 0\<rparr>
   \<and> total \<lparr>total = 3, successful = 1, partial = 0, failed = 0\<rparr>
       = int (length (rows (apply_limit None blank_df)))
   \<and> length (dispatched blank_run)
       = length (filter (has_link (columns blank_df)) (rows (apply_limit None blank_df)))
   \<and> length (dispatched blank_run) = 1"
proof -
  have h1: "read_csv (run_env_of blank_df) = Inr blank_df"
    by (simp add: run_env_of_def)
  have h2: "run_stats blank_run = Some \<lparr>total = 3, successful = 1, partial = 0, failed = 0\<rparr>"
    by code_simp
  have h3: "raised blank_run = None"
    by code_simp
  have h4: "length (dispatched blank_run) = 1"
    by code_simp
  note t = total_counts_rows [of "run_env_of blank_df" blank_df scenario_world "''final-list.csv''" None "[]"
      "\<lparr>total = 3, successful = 1, partial = 0, failed = 0\<rparr>"]
  show ?thesis using t h1 h2 h3 h4 by blast
qed

text \<open>C4. Every call of \<^verbatim>\<open>process_video\<close> leaves the counters as they were but for
  one of \<^verbatim>\<open>successful\<close>, \<^verbatim>\<open>partial\<close> and \<^verbatim>\<open>failed\<close>, which is one higher; this
  holds for every behaviour of the world, hence on every path. After a run the three
  counters add up to the number of submitted items, each of which has a result.\<close>

theorem one_counter_per_item:
  "(counters (snd (process_video w vn url s))
       = (counters s)\<lparr>successful := successful (counters s) + 1\<rparr>
     \<or> counters (snd (process_video w vn url s))
       = (counters s)\<lparr>partial := partial (counters s) + 1\<rparr>
     \<or> counters (snd (process_video w vn url s))
       = (counters s)\<lparr>failed := failed (counters s) + 1\<rparr>)
   \<and> (\<forall>st. run_stats (batch_process_videos w renv csv_file limit f0) = Some st \<longrightarrow>
         successful st + partial st + failed st
           = int (length (dispatched (batch_process_videos w renv csv_file limit f0))))
   \<and> length (results (batch_process_videos w renv csv_file limit f0))
       = length (dispatched (batch_process_videos w renv csv_file limit f0))"
proof -
  have "length (results (batch_process_videos w renv csv_file limit f0))
       = length (dispatched (batch_process_videos w renv csv_file limit f0))"
    by (auto simp: batch_process_videos_def stopped_def Let_def
      split: prod.splits sum.splits option.splits if_splits dest!: run_pool_counts)
  then show ?thesis
    using process_video_counters [of w vn url s] batch_stats_sum [of w renv csv_file limit f0]
    by blast
qed

text \<open>The theorem at the scenario of three rows.\<close>

theorem one_counter_per_item_witness:
  "run_stats scenario_run = Some \<lparr>total = 3, successful = 2, partial = 0, failed = 1\<rparr>
   \<and> successful \<lparr>total = 3, successful = 2, partial = 0, failed = 1\<rparr>
       + partial \<lparr>total = 3, successful = 2, partial = 0, failed = 1\<rparr>
       + failed \<lparr>total = 3, successful = 2, partial = 0, failed = 1\<rparr>
       = int (length (dispatched scenario_run))
   \<and> length (dispatched scenario_run) = 3"
proof -
  have h: "run_stats scenario_run = Some \<lparr>total = 3, successful = 2, partial = 0, failed = 1\<rparr>"
    by code_simp
  have n: "length (dispatched scenario_run) = 3"
    by code_simp
  note t = one_counter_per_item [of scenario_world "Num 1" "''A''" state0 "run_env_of scenario_df"
      "''final-list.csv''" None "[]"]
  show ?thesis using t h n by blast
qed

text \<open>C5. A download that ends with return code 1 while the file exists at the
  temporary path: \<^verbatim>\<open>download_video\<close> returns \<^verbatim>\<open>None\<close>, the item is counted failed,
  and \<^verbatim>\<open>process_video\<close> returns before \<^verbatim>\<open>secure_delete_file\<close>, so the file is still
  there afterwards.\<close>

theorem fetch_failure_leaves_temp_file:
  "fst (download_video (scenario_world (Num 4) ''L'') ''L'' (Num 4) (fs state0)) = Inr None
   \<and> fst (process_video scenario_world (Num 4) ''L'' state0) = Inr False
   \<and> counters (snd (process_video scenario_world (Num 4) ''L'' state0))
       = \<lparr>total = 0, successful = 0, partial = 0, failed = 1\<rparr>
   \<and> path_exists (fs (snd (process_video scenario_world (Num 4) ''L'' state0))) (temp_path (Num 4))"
  by code_simp


text \<open>C6 as stated fails: writing the third frame of an item raises; the exception is
  caught inside \<^verbatim>\<open>capture_random_frames\<close>, which returns \<^verbatim>\<open>False\<close>, and the item is
  counted partial, not failed.\<close>

theorem sampling_exception_counted_partial_counterexample:
  "fst (capture_body (scenario_world (Num 6) ''W'') ''temp_downloads/6_temp.mp4'' (Num 6) 5
         [''temp_downloads/6_temp.mp4'']) = Inl CvError
   \<and> fst (process_video scenario_world (Num 6) ''W'' state0) = Inr False
   \<and> counters (snd (process_video scenario_world (Num 6) ''W'' state0))
       = \<lparr>total = 0, successful = 0, partial = 1, failed = 0\<rparr>"
  by code_simp

text \<open>C6, amended. \<^verbatim>\<open>process_video\<close> always returns a value, so no exception of an item
  reaches the pool, and the pool produces a result for every submitted item. How the
  item is counted depends on where the exception is raised. An exception leaves the body
  of the \<^verbatim>\<open>try\<close> block of \<^verbatim>\<open>process_video\<close> exactly when the delay raises; the handler
  then returns \<^verbatim>\<open>False\<close> and counts the item failed. An exception of the download
  (a timeout or another error of the call) is caught in \<^verbatim>\<open>download_video\<close> and the
  item is counted failed. An exception during the sampling is caught in
  \<^verbatim>\<open>capture_random_frames\<close> and the item is counted partial. An exception of the removal
  changes neither the result nor the counters. (The handlers are \<^verbatim>\<open>except Exception\<close>;
  interrupts are outside the model.)\<close>

theorem exceptions_stay_in_item:
  "(\<exists>r. fst (process_video w vn url s) = Inr r)
   \<and> ((\<exists>e s'. process_video_body w vn url s = (Inl e, s')) = sleep_raises (w vn url))
   \<and> (sleep_raises (w vn url) \<longrightarrow> process_video w vn url s = (Inr False, incr_failed s))
   \<and> (\<not> sleep_raises (w vn url)
        \<and> (ytdlp_outcome (w vn url) = TimedOut \<or> ytdlp_outcome (w vn url) = RunFailed) \<longrightarrow>
      fst (process_video w vn url s) = Inr False
      \<and> counters (snd (process_video w vn url s))
          = (counters s)\<lparr>failed := failed (counters s) + 1\<rparr>)
   \<and> (\<not> sleep_raises (w vn url)
        \<and> download_video (w vn url) url vn (fs s) = (Inr (Some p), f1)
        \<and> fst (capture_body (w vn url) p vn 5 f1) = Inl e \<longrightarrow>
      fst (process_video w vn url s) = Inr False
      \<and> counters (snd (process_video w vn url s))
          = (counters s)\<lparr>partial := partial (counters s) + 1\<rparr>)
   \<and> fst (process_video (\<lambda>a b. (w a b)\<lparr>remove_raises := x\<rparr>) vn url s)
       = fst (process_video w vn url s)
   \<and> counters (snd (process_video (\<lambda>a b. (w a b)\<lparr>remove_raises := x\<rparr>) vn url s))
       = counters (snd (process_video w vn url s))
   \<and> length (fst (run_pool w items s)) = length items
   \<and> (\<forall>r \<in> set (fst (run_pool w items s)). \<exists>b. r = Inr b)"
proof -
  have body: "(\<exists>e s'. process_video_body w vn url s = (Inl e, s')) = sleep_raises (w vn url)"
  proof
    assume "\<exists>e s'. process_video_body w vn url s = (Inl e, s')"
    then show "sleep_raises (w vn url)"
      using download_video_returns [of "w vn url" url vn "fs s"]
      by (auto simp: process_video_body_def rate_limit_def Let_def capture_random_frames_def
          secure_delete_file_def
          split: prod.splits sum.splits option.splits if_splits)
  next
    assume "sleep_raises (w vn url)"
    then show "\<exists>e s'. process_video_body w vn url s = (Inl e, s')"
      by (simp add: process_video_body_def rate_limit_def)
  qed
  have sleep: "sleep_raises (w vn url) \<longrightarrow> process_video w vn url s = (Inr False, incr_failed s)"
    by (simp add: process_video_def process_video_body_def rate_limit_def)
  have fetch: "\<not> sleep_raises (w vn url)
        \<and> (ytdlp_outcome (w vn url) = TimedOut \<or> ytdlp_outcome (w vn url) = RunFailed) \<longrightarrow>
      fst (process_video w vn url s) = Inr False
      \<and> counters (snd (process_video w vn url s))
          = (counters s)\<lparr>failed := failed (counters s) + 1\<rparr>"
    using process_video_nofetch [of w vn url s] by auto
  have sampling: "\<not> sleep_raises (w vn url)
        \<and> download_video (w vn url) url vn (fs s) = (Inr (Some p), f1)
        \<and> fst (capture_body (w vn url) p vn 5 f1) = Inl e \<longrightarrow>
      fst (process_video w vn url s) = Inr False
      \<and> counters (snd (process_video w vn url s))
          = (counters s)\<lparr>partial := partial (counters s) + 1\<rparr>"
  proof (intro impI)
    assume h: "\<not> sleep_raises (w vn url)
        \<and> download_video (w vn url) url vn (fs s) = (Inr (Some p), f1)
        \<and> fst (capture_body (w vn url) p vn 5 f1) = Inl e"
    then obtain f2 where "capture_body (w vn url) p vn 5 f1 = (Inl e, f2)"
      by (cases "capture_body (w vn url) p vn 5 f1") simp
    then have c2: "capture_random_frames (w vn url) p vn 5 f1 = (Inr False, f2)"
      by (simp add: capture_random_frames_def)
    have p: "p \<noteq> []"
      using download_video_path [of "w vn url" url vn "fs s" p] h temp_path_nonempty by auto
    obtain d f3 where r: "secure_delete_file (remove_raises (w vn url)) p f2 = (Inr d, f3)"
      using secure_delete_file_returns [of "remove_raises (w vn url)" p f2]
      by (cases "secure_delete_file (remove_raises (w vn url)) p f2") auto
    show "fst (process_video w vn url s) = Inr False
      \<and> counters (snd (process_video w vn url s))
          = (counters s)\<lparr>partial := partial (counters s) + 1\<rparr>"
      using h p c2 r
      by (simp add: process_video_def process_video_body_def rate_limit_def Let_def
          incr_partial_def)
  qed
  obtain rs s' where pool: "run_pool w items s = (rs, s')"
    by (cases "run_pool w items s")
  show ?thesis
    using body sleep fetch sampling process_video_returns [of w vn url s]
      process_video_remove_raises [where w = w and x = x and vn = vn and url = url and s = s]
      run_pool_counts [OF pool] pool
    by simp
qed

text \<open>The theorem at the item for which writing the third frame raises, and at a pool of
  two items, the first of which raises in its delay: the second item is still processed.\<close>

theorem exceptions_stay_in_item_witness:
  "\<not> sleep_raises (scenario_world (Num 6) ''W'')
   \<and> download_video (scenario_world (Num 6) ''W'') ''W'' (Num 6) (fs state0)
       = (Inr (Some ''temp_downloads/6_temp.mp4''), [''temp_downloads/6_temp.mp4''])
   \<and> fst (capture_body (scenario_world (Num 6) ''W'') ''temp_downloads/6_temp.mp4'' (Num 6) 5
         [''temp_downloads/6_temp.mp4'']) = Inl CvError
   \<and> fst (process_video scenario_world (Num 6) ''W'' state0) = Inr False
   \<and> counters (snd (process_video scenario_world (Num 6) ''W'' state0))
       = \<lparr>total = 0, successful = 0, partial = 1, failed = 0\<rparr>
   \<and> fst (run_pool scenario_world [(Num 1, ''S''), (Num 2, ''A'')] state0) = [Inr False, Inr True]
   \<and> counters (snd (run_pool scenario_world [(Num 1, ''S''), (Num 2, ''A'')] state0))
       = \<lparr>total = 0, successful = 1, partial = 0, failed = 1\<rparr>"
proof -
  note t = exceptions_stay_in_item [where w = scenario_world and vn = "Num 6" and url = "''W''"
      and s = state0 and p = "''temp_downloads/6_temp.mp4''"
      and ?f1.0 = "[''temp_downloads/6_temp.mp4'']" and e = CvError and x = True
      and items = "[(Num 1, ''S''), (Num 2, ''A'')]"]
  have h1: "\<not> sleep_raises (scenario_world (Num 6) ''W'')"
    by code_simp
  have h2: "download_video (scenario_world (Num 6) ''W'') ''W'' (Num 6) (fs state0)
       = (Inr (Some ''temp_downloads/6_temp.mp4''), [''temp_downloads/6_temp.mp4''])"
    by code_simp
  have h3: "fst (capture_body (scenario_world (Num 6) ''W'') ''temp_downloads/6_temp.mp4'' (Num 6) 5
         [''temp_downloads/6_temp.mp4'']) = Inl CvError"
    by code_simp
  have item: "fst (process_video scenario_world (Num 6) ''W'' state0) = Inr False
      \<and> counters (snd (process_video scenario_world (Num 6) ''W'' state0))
          = (counters state0)\<lparr>partial := partial (counters state0) + 1\<rparr>"
    using t h1 h2 h3 by blast
  then have item': "fst (process_video scenario_world (Num 6) ''W'' state0) = Inr False
      \<and> counters (snd (process_video scenario_world (Num 6) ''W'' state0))
          = \<lparr>total = 0, successful = 0, partial = 1, failed = 0\<rparr>"
    by (simp add: state0_def)
  have r: "fst (run_pool scenario_world [(Num 1, ''S''), (Num 2, ''A'')] state0) = [Inr False, Inr True]"
    by code_simp
  have c: "counters (snd (run_pool scenario_world [(Num 1, ''S''), (Num 2, ''A'')] state0))
       = \<lparr>total = 0, successful = 1, partial = 0, failed = 1\<rparr>"
    by code_simp
  show ?thesis using h1 h2 h3 item' r c by blast
qed

subsection \<open>Evenly spaced positions\<close>

text \<open>C7. For a frame count that is positive and smaller than the number of frames
  asked for, the positions are those of the spacing formula \<^verbatim>\<open>int(i * frame_count / N)\<close>,
  whatever the random source holds. For a frame count below \<open>2 ^ 512\<close> every float
  quotient is finite and the comprehension ends; when it ends, it holds as many
  positions as asked for, position \<open>k\<close> being the truncated float quotient of
  \<open>k * frame_count\<close> by \<open>N\<close>. As long as \<open>(N - 1) * frame_count < 2 ^ 53\<close> no float is rounded
  and the comprehension ends with the integer quotients \<open>k * frame_count div N\<close>: they lie
  within the video, ascend, and repeat.\<close>

theorem short_video_evenly_spaced:
  assumes "0 < count" and "count < n"
  shows "frame_indices env count n = evenly_spaced count n
       \<and> (count < 2 ^ 512 \<longrightarrow> (\<exists>xs. evenly_spaced count n = Inr xs))
       \<and> (\<forall>xs. evenly_spaced count n = Inr xs \<longrightarrow>
            length xs = nat n
            \<and> (\<forall>k < nat n. py_int_truediv (int k * count) n = Inr (xs ! k)))
       \<and> ((n - 1) * count < 2 ^ 53 \<longrightarrow>
            evenly_spaced count n = Inr (floor_positions count n)
            \<and> length (floor_positions count n) = nat n
            \<and> (\<forall>k < nat n. floor_positions count n ! k = (int k * count) div n)
            \<and> (\<forall>x \<in> set (floor_positions count n). 0 \<le> x \<and> x < count)
            \<and> sorted (floor_positions count n)
            \<and> \<not> distinct (floor_positions count n))"
proof -
  have branch: "frame_indices env count n = evenly_spaced count n"
    using assms(2) by (simp add: frame_indices_def)
  have formula: "\<forall>xs. evenly_spaced count n = Inr xs \<longrightarrow>
            length xs = nat n
            \<and> (\<forall>k < nat n. py_int_truediv (int k * count) n = Inr (xs ! k))"
  proof (intro allI impI)
    fix xs
    assume "evenly_spaced count n = Inr xs"
    then have "collect_results (map (\<lambda>i. py_int_truediv (int i * count) n) [0..<nat n]) = Inr xs"
      by (simp add: evenly_spaced_def)
    from collect_results_Inr [OF this]
    show "length xs = nat n \<and> (\<forall>k < nat n. py_int_truediv (int k * count) n = Inr (xs ! k))"
      by simp
  qed
  have n: "0 < n" using assms by simp
  have returns: "count < 2 ^ 512 \<longrightarrow> (\<exists>xs. evenly_spaced count n = Inr xs)"
    using evenly_spaced_returns [OF assms] by simp
  have exact: "(n - 1) * count < 2 ^ 53 \<longrightarrow> evenly_spaced count n = Inr (floor_positions count n)"
    using evenly_spaced_exact [of count n] assms(1) n by simp
  have len: "length (floor_positions count n) = nat n"
    by (simp add: floor_positions_def)
  show ?thesis
    using branch returns formula exact len floor_positions_nth [of _ n count]
      floor_positions_range [OF assms] floor_positions_sorted [OF assms(1) n]
      floor_positions_repeats [OF assms]
    by blast
qed

text \<open>The theorem at three frames and five positions.\<close>

theorem short_video_evenly_spaced_witness:
  "(0::int) < 3 \<and> (3::int) < 5 \<and> (3::int) < 2 ^ 512 \<and> ((5::int) - 1) * 3 < 2 ^ 53
   \<and> frame_indices env_full 3 5 = Inr [0, 0, 1, 1, 2]
   \<and> length (floor_positions 3 5) = 5"
proof -
  have h1: "(0::int) < 3" by simp
  have h2: "(3::int) < 5" by simp
  have h3: "((5::int) - 1) * 3 < 2 ^ 53" by simp
  have e: "floor_positions 3 5 = [0, 0, 1, 1, 2]" by code_simp
  note t = short_video_evenly_spaced [OF h1 h2, of env_full]
  have "frame_indices env_full 3 5 = Inr (floor_positions 3 5)"
    using t h3 by simp
  with e h1 h2 h3 show ?thesis by simp
qed

subsection \<open>Cleanup, missing columns and the limit\<close>

text \<open>C8. \<^verbatim>\<open>secure_delete_file\<close> always returns a value, also when called a second
  time and when \<^verbatim>\<open>os.remove\<close> raises. On a path that does not exist it returns \<^verbatim>\<open>False\<close>
  and changes nothing; after a call that returned \<^verbatim>\<open>True\<close> the path is gone and a
  second call returns \<^verbatim>\<open>False\<close> and changes nothing. Whether the removal fails has no
  effect on the result of \<^verbatim>\<open>process_video\<close> nor on the counters.\<close>

theorem cleanup_idempotent_total:
  "(\<exists>b. fst (secure_delete_file r1 p f) = Inr b)
   \<and> (\<exists>b. fst (secure_delete_file r2 p (snd (secure_delete_file r1 p f))) = Inr b)
   \<and> (\<not> path_exists f p \<longrightarrow> secure_delete_file r2 p f = (Inr False, f))
   \<and> (fst (secure_delete_file r1 p f) = Inr True \<longrightarrow>
        \<not> path_exists (snd (secure_delete_file r1 p f)) p
        \<and> secure_delete_file r2 p (snd (secure_delete_file r1 p f))
            = (Inr False, snd (secure_delete_file r1 p f)))
   \<and> fst (process_video (\<lambda>a b. (w a b)\<lparr>remove_raises := x\<rparr>) vn url s)
       = fst (process_video w vn url s)
   \<and> counters (snd (process_video (\<lambda>a b. (w a b)\<lparr>remove_raises := x\<rparr>) vn url s))
       = counters (snd (process_video w vn url s))"
proof -
  have a: "\<not> path_exists f p \<longrightarrow> secure_delete_file r2 p f = (Inr False, f)"
    by (simp add: secure_delete_file_def)
  have b: "fst (secure_delete_file r1 p f) = Inr True \<longrightarrow>
        \<not> path_exists (snd (secure_delete_file r1 p f)) p"
    by (auto simp: secure_delete_file_def os_remove_def path_exists_def split: if_splits)
  have c: "fst (secure_delete_file r1 p f) = Inr True \<longrightarrow>
        secure_delete_file r2 p (snd (secure_delete_file r1 p f))
            = (Inr False, snd (secure_delete_file r1 p f))"
    using b by (simp add: secure_delete_file_def [of r2])
  show ?thesis
    using a b c secure_delete_file_returns [of r1 p f]
      secure_delete_file_returns [of r2 p "snd (secure_delete_file r1 p f)"]
      process_video_remove_raises [where w = w and x = x and vn = vn and url = url and s = s]
    by blast
qed

text \<open>The theorem at a temporary file that exists, and at an item whose removal
  fails.\<close>

theorem cleanup_idempotent_total_witness:
  "secure_delete_file False ''temp_downloads/1_temp.mp4'' [''temp_downloads/1_temp.mp4'', ''final-dataset'']
     = (Inr True, [''final-dataset''])
   \<and> secure_delete_file False ''temp_downloads/1_temp.mp4'' [''final-dataset'']
     = (Inr False, [''final-dataset''])
   \<and> counters (snd (process_video (\<lambda>a b. (scenario_world a b)\<lparr>remove_raises := True\<rparr>) (Num 1) ''A'' state0))
     = \<lparr>total = 0, successful = 1, partial = 0, failed = 0\<rparr>"
proof -
  have h1: "secure_delete_file False ''temp_downloads/1_temp.mp4''
        [''temp_downloads/1_temp.mp4'', ''final-dataset''] = (Inr True, [''final-dataset''])"
    by code_simp
  have h2: "counters (snd (process_video scenario_world (Num 1) ''A'' state0))
     = \<lparr>total = 0, successful = 1, partial = 0, failed = 0\<rparr>"
    by code_simp
  note t = cleanup_idempotent_total [where ?r1.0 = False and p = "''temp_downloads/1_temp.mp4''"
      and f = "[''temp_downloads/1_temp.mp4'', ''final-dataset'']" and ?r2.0 = False
      and w = scenario_world and x = True and vn = "Num 1" and url = "''A''" and s = state0]
  show ?thesis using t h1 h2 by simp
qed

text \<open>C9. When the table lacks the column \<^verbatim>\<open>video_number\<close> or the column
  \<^verbatim>\<open>vimeo_link\<close>, no item is submitted, no future has a result, the dictionary of the
  counters is never created, no summary is printed, and the run does not depend on the
  world of the items.\<close>

theorem missing_column_aborts:
  assumes "read_csv renv = Inr df"
    and "''video_number'' \<notin> set (columns df) \<or> ''vimeo_link'' \<notin> set (columns df)"
  shows "dispatched (batch_process_videos w renv csv_file limit f0) = []
       \<and> results (batch_process_videos w renv csv_file limit f0) = []
       \<and> run_stats (batch_process_videos w renv csv_file limit f0) = None
       \<and> summary (batch_process_videos w renv csv_file limit f0) = None
       \<and> batch_process_videos w renv csv_file limit f0 = batch_process_videos w' renv csv_file limit f0"
  using assms
  by (auto simp: batch_process_videos_def stopped_def split: prod.splits sum.splits)

text \<open>The theorem at a table whose second column is named \<^verbatim>\<open>url\<close>.\<close>

theorem missing_column_aborts_witness:
  "read_csv (run_env_of nolink_df) = Inr nolink_df
   \<and> ''vimeo_link'' \<notin> set (columns nolink_df)
   \<and> nolink_run = \<lparr>run_fs = [''temp_downloads'', ''final-dataset''], run_stats = None, dispatched = [],
        results = [], summary = None, raised = None\<rparr>"
proof -
  have h1: "read_csv (run_env_of nolink_df) = Inr nolink_df"
    by (simp add: run_env_of_def)
  have h2: "''vimeo_link'' \<notin> set (columns nolink_df)"
    by (simp add: nolink_df_def)
  have h3: "run_fs nolink_run = [''temp_downloads'', ''final-dataset''] \<and> raised nolink_run = None"
    by code_simp
  note t = missing_column_aborts [of "run_env_of nolink_df" nolink_df scenario_world "''final-list.csv''" None "[]" scenario_world]
  have "nolink_run = \<lparr>run_fs = run_fs nolink_run, run_stats = run_stats nolink_run,
      dispatched = dispatched nolink_run, results = results nolink_run, summary = summary nolink_run,
      raised = raised nolink_run\<rparr>"
    by simp
  then show ?thesis using t h1 h2 h3 by simp
qed

lemma apply_limit_zero: "apply_limit (Some 0) df = apply_limit None df"
  by (simp add: apply_limit_def)

text \<open>C10. A limit of zero gives the same run as no limit.\<close>

theorem limit_zero_is_no_limit:
  "batch_process_videos w renv csv_file (Some 0) f0 = batch_process_videos w renv csv_file None f0"
  unfolding batch_process_videos_def apply_limit_zero ..

text \<open>The theorem at the scenario of three rows: with the limit zero, all three rows
  are submitted.\<close>

theorem limit_zero_is_no_limit_witness:
  "dispatched (batch_process_videos scenario_world (run_env_of scenario_df) ''final-list.csv'' (Some 0) [])
     = [(Num 1, ''A''), (Num 2, ''B''), (Num 3, ''C'')]
   \<and> run_stats (batch_process_videos scenario_world (run_env_of scenario_df) ''final-list.csv'' (Some 0) [])
     = Some \<lparr>total = 3, successful = 2, partial = 0, failed = 1\<rparr>"
proof -
  have h: "dispatched scenario_run = [(Num 1, ''A''), (Num 2, ''B''), (Num 3, ''C'')]
     \<and> run_stats scenario_run = Some \<lparr>total = 3, successful = 2, partial = 0, failed = 1\<rparr>"
    by code_simp
  note t = limit_zero_is_no_limit [of scenario_world "run_env_of scenario_df" "''final-list.csv''" "[]"]
  show ?thesis using t h by simp
qed

end
